theory Spec2Isabelle
  imports Complex_Main
begin

section \<open>Common data\<close>

text \<open>
  Tensor entries are modelled as real numbers. The tensors of the source hold float32
  numbers; of their arithmetic the model keeps what happens at the two ends of the range
  of the exponential and of the sigmoid: a result that is at most half the least positive
  float32, \<open>2^-149\<close>, is 0, and a result within half a unit in the last place of 1 is 1.
  Rounding elsewhere is not modelled. An operation whose result has no real value (a
  division by zero, which the tensor library answers with nan or inf) is an explicit error
  value.
\<close>

datatype error =
    AttributeError
  | TypeError
  | IndexError
  | KeyError
  | ValueError
  | AssertionError
  | ShapeError
  | NotANumber

text \<open>A two-dimensional tensor: its rows, and the number of columns (\<open>shape[1]\<close>),
  which is kept apart because a tensor may have no row.\<close>

record matrix =
  rows :: "real list list"
  ncols :: nat

definition nrows :: "matrix \<Rightarrow> nat" where
  "nrows m = length (rows m)"

definition wf_matrix :: "matrix \<Rightarrow> bool" where
  "wf_matrix m = list_all (\<lambda>r. length r = ncols m) (rows m)"

definition logistic :: "real \<Rightarrow> real" where
  "logistic x = 1 / (1 + exp (- x))"

text \<open>\<open>torch.sigmoid\<close> on a float32: it reaches 1 and 0 at the ends of its range.\<close>

definition sigmoid :: "real \<Rightarrow> real" where
  "sigmoid x =
     (if 1 - 1 / 2 ^ 25 \<le> logistic x then 1
      else if logistic x \<le> 1 / 2 ^ 150 then 0
      else logistic x)"

text \<open>The exponential of a float32, which underflows to 0.\<close>

definition exp32 :: "real \<Rightarrow> real" where
  "exp32 x = (if exp x \<le> 1 / 2 ^ 150 then 0 else exp x)"

text \<open>\<open>F.softmax(w, dim=1)\<close> on one row: the maximum of the row is subtracted before the
  exponential is taken.\<close>

definition softmax_row :: "real list \<Rightarrow> real list" where
  "softmax_row ws =
     (if ws = [] then []
      else let mx = Max (set ws)
           in map (\<lambda>w. exp32 (w - mx) / sum_list (map (\<lambda>v. exp32 (v - mx)) ws)) ws)"

section \<open>linear.py: regularization errors\<close>

text \<open>
  The value of an attribute access in \<open>LassoLinear\<close>: \<open>self.effective_W\<close> without
  a call is the bound method, \<open>self.effective_W()\<close> is the tensor.
\<close>

datatype pyobj = BoundMethod | TensorObj "real list list"

text \<open>\<open>obj.norm(p=1)\<close>: a bound method has no attribute \<open>norm\<close>.\<close>

fun norm_p1 :: "pyobj \<Rightarrow> error + real" where
  "norm_p1 BoundMethod = Inl AttributeError"
| "norm_p1 (TensorObj w) = Inr (sum_list (map (\<lambda>r. sum_list (map abs r)) w))"

text \<open>The map-layer variants with the fields their methods read.\<close>

datatype linear_map =
    Linear "real list list"
  | NonnegativeLinear "real list list" "real list"
  | LassoLinear "real list list" "real list list" "real list" real
  | PerronFrobeniusLinear "real list list" "real list list" real real "real list"
  | SVDLinear "real list list" "real list list" "real list" real real "real list"
  | SpectralLinear "real list list" "real list" "real list list" "real list"

text \<open>\<open>LinearBase.regularization_error\<close> returns \<open>0.0\<close>; only \<open>LassoLinear\<close>
  overrides it, with \<open>self.gamma*self.effective_W.norm(p=1)\<close>.\<close>

fun regularization_error :: "linear_map \<Rightarrow> error + real" where
  "regularization_error (LassoLinear u_param v_param b gamma) =
     (case norm_p1 BoundMethod of Inl e \<Rightarrow> Inl e | Inr n \<Rightarrow> Inr (gamma * n))"
| "regularization_error _ = Inr 0"

section \<open>linear.py: PerronFrobeniusLinear\<close>

record perron_frobenius_linear =
  pf_weight :: "real list list"
  pf_scaling :: "real list list"
  pf_sigma_min :: real
  pf_sigma_max :: real
  pf_bias :: "real list"

text \<open>\<open>weight\<close> and \<open>scaling\<close> have the same shape, \<open>insize\<close> rows of
  \<open>outsize\<close> entries, as \<open>torch.rand(insize, outsize)\<close> makes them.\<close>

definition pf_shape :: "perron_frobenius_linear \<Rightarrow> nat \<Rightarrow> nat \<Rightarrow> bool" where
  "pf_shape m insize outsize =
     (length (pf_weight m) = insize \<and> length (pf_scaling m) = insize \<and>
      list_all (\<lambda>r. length r = outsize) (pf_weight m) \<and>
      list_all (\<lambda>r. length r = outsize) (pf_scaling m))"

definition s_clamped :: "perron_frobenius_linear \<Rightarrow> real list list" where
  "s_clamped m =
     map (map (\<lambda>s. pf_sigma_max m - (pf_sigma_max m - pf_sigma_min m) * sigmoid s))
       (pf_scaling m)"

text \<open>The elementwise product of two tensors of the same shape.\<close>

definition hadamard :: "real list list \<Rightarrow> real list list \<Rightarrow> real list list" where
  "hadamard a b = map2 (\<lambda>ra rb. map2 (*) ra rb) a b"

definition pf_effective_W :: "perron_frobenius_linear \<Rightarrow> real list list" where
  "pf_effective_W m = hadamard (s_clamped m) (map softmax_row (pf_weight m))"

section \<open>linear.py: SpectralLinear\<close>

record spectral_linear =
  insize :: nat
  outsize :: nat
  n_U_reflectors :: nat
  n_V_reflectors :: nat
  r :: real
  sigma_mean :: real
  U :: "real list list"
  p :: "real list"
  V :: "real list list"
  bias :: "real list"

text \<open>The shapes of the parameters.\<close>

definition spectral_shape :: "spectral_linear \<Rightarrow> bool" where
  "spectral_shape m =
     (length (p m) = min (insize m) (outsize m) \<and>
      length (U m) = insize m \<and> list_all (\<lambda>u. length u = insize m) (U m) \<and>
      length (V m) = outsize m \<and> list_all (\<lambda>v. length v = outsize m) (V m) \<and>
      length (bias m) = outsize m)"

definition sigmas :: "spectral_linear \<Rightarrow> real list" where
  "sigmas m = map (\<lambda>x. 2 * r m * (sigmoid x - 1 / 2) + sigma_mean m) (p m)"

text \<open>\<open>torch.diag\<close> of a vector.\<close>

definition diag :: "real list \<Rightarrow> real list list" where
  "diag v = map (\<lambda>i. (replicate (length v) 0)[i := v ! i]) [0..<length v]"

text \<open>\<open>SpectralLinear.Sigma\<close>: the padded diagonal matrix, sliced to
  \<open>[:insize, :outsize]\<close>.\<close>

definition Sigma_mat :: "spectral_linear \<Rightarrow> matrix" where
  "Sigma_mat m =
     (let padded = sigmas m @ replicate (nat \<bar>int (insize m) - int (outsize m)\<bar>) 0;
          square_matrix = diag padded
      in \<lparr>rows = map (take (outsize m)) (take (insize m) square_matrix),
          ncols = min (outsize m) (length padded)\<rparr>)"

text \<open>Python slices of a list: \<open>slice_bound i n\<close> is the position that the bound
  \<open>i\<close> of a slice denotes in a list of length \<open>n\<close> (a negative bound counts from the
  end, and every bound is clamped to the list).\<close>

definition slice_bound :: "int \<Rightarrow> nat \<Rightarrow> nat" where
  "slice_bound i n = nat (if i < 0 then max (int n + i) 0 else min i (int n))"

definition slice_from :: "int \<Rightarrow> 'a list \<Rightarrow> 'a list" where
  "slice_from i xs = drop (slice_bound i (length xs)) xs"

definition slice_to :: "int \<Rightarrow> 'a list \<Rightarrow> 'a list" where
  "slice_to i xs = take (slice_bound i (length xs)) xs"

definition dot :: "real list \<Rightarrow> real list \<Rightarrow> real" where
  "dot a b = sum_list (map2 (*) a b)"

definition vsub :: "real list \<Rightarrow> real list \<Rightarrow> real list" where
  "vsub a b = map2 (-) a b"

definition smult :: "real \<Rightarrow> real list \<Rightarrow> real list" where
  "smult c a = map ((*) c) a"

text \<open>\<open>SpectralLinear.Hprod\<close> on one row \<open>x\<close> of a batch with \<open>d\<close> columns:
  \<open>alpha\<close> is the row's entry of \<open>2 * matmul(x[:, -k:], u[-k:]) / (u[-k:] * u[-k:]).sum()\<close>.\<close>

definition Hprod_row :: "nat \<Rightarrow> real list \<Rightarrow> int \<Rightarrow> real list \<Rightarrow> real list" where
  "Hprod_row d u k x =
     (let uk = slice_from (- k) u;
          xk = slice_from (- k) x;
          alpha = 2 * dot xk uk / dot uk uk;
          reflected = vsub xk (smult alpha uk)
      in if k < int d then slice_to (- k) x @ reflected else reflected)"

text \<open>\<open>SpectralLinear.Hprod\<close>. The product \<open>matmul(x[:, -k:], u[-k:])\<close> needs as many
  columns in \<open>x[:, -k:]\<close> as \<open>u[-k:]\<close> has entries. When \<open>u[-k:]\<close> is not empty and
  its squared norm is zero, every entry of the reflected columns is nan.\<close>

definition Hprod :: "matrix \<Rightarrow> real list \<Rightarrow> int \<Rightarrow> error + matrix" where
  "Hprod x u k =
     (let uk = slice_from (- k) u;
          kx = ncols x - slice_bound (- k) (ncols x)
      in if kx \<noteq> length uk then Inl ShapeError
         else if rows x \<noteq> [] \<and> uk \<noteq> [] \<and> dot uk uk = 0 then Inl NotANumber
         else Inr \<lparr>rows = map (Hprod_row (ncols x) u k) (rows x),
                   ncols = (if k < int (ncols x) then slice_bound (- k) (ncols x) + kx else kx)\<rparr>)"

text \<open>The loops of \<open>Umultiply\<close> and \<open>Vmultiply\<close>: for each index \<open>i\<close> of the list,
  \<open>x = Hprod(x, M[i], n - i)\<close>; \<open>M[i]\<close> raises IndexError past the last row.\<close>

fun Hprod_loop :: "real list list \<Rightarrow> nat \<Rightarrow> nat list \<Rightarrow> matrix \<Rightarrow> error + matrix" where
  "Hprod_loop M n [] x = Inr x"
| "Hprod_loop M n (i # is) x =
     (if i < length M
      then (case Hprod x (M ! i) (int n - int i) of
              Inl e \<Rightarrow> Inl e
            | Inr x' \<Rightarrow> Hprod_loop M n is x')
      else Inl IndexError)"

definition Umultiply :: "spectral_linear \<Rightarrow> matrix \<Rightarrow> error + matrix" where
  "Umultiply m x =
     (if ncols x = insize m
      then Hprod_loop (U m) (insize m) [0..<n_U_reflectors m] x
      else Inl AssertionError)"

definition Vmultiply :: "spectral_linear \<Rightarrow> matrix \<Rightarrow> error + matrix" where
  "Vmultiply m x =
     (if ncols x = outsize m
      then Hprod_loop (V m) (outsize m) (rev [0..<n_V_reflectors m]) x
      else Inl AssertionError)"

text \<open>\<open>torch.matmul\<close> of two matrices: entry \<open>j\<close> of a row of the product is the sum
  of the row's entries times column \<open>j\<close> of the right factor.\<close>

definition vec_mat :: "real list \<Rightarrow> matrix \<Rightarrow> real list" where
  "vec_mat a b = map (\<lambda>j. sum_list (map2 (\<lambda>x rb. x * rb ! j) a (rows b))) [0..<ncols b]"

definition matmul :: "matrix \<Rightarrow> matrix \<Rightarrow> error + matrix" where
  "matmul a b =
     (if ncols a = nrows b
      then Inr \<lparr>rows = map (\<lambda>ra. vec_mat ra b) (rows a), ncols = ncols b\<rparr>
      else Inl ShapeError)"

text \<open>\<open>x += self.bias\<close>: a bias of as many entries as \<open>x\<close> has columns is added to
  every row, a bias of one entry to every entry; nothing else broadcasts in place.\<close>

definition add_bias :: "matrix \<Rightarrow> real list \<Rightarrow> error + matrix" where
  "add_bias x b =
     (if length b = ncols x then Inr (x\<lparr>rows := map (\<lambda>row. map2 (+) row b) (rows x)\<rparr>)
      else if length b = 1 then Inr (x\<lparr>rows := map (map (\<lambda>v. v + b ! 0)) (rows x)\<rparr>)
      else Inl ShapeError)"

definition bindE :: "error + 'a \<Rightarrow> ('a \<Rightarrow> error + 'b) \<Rightarrow> error + 'b" where
  "bindE m f = (case m of Inl e \<Rightarrow> Inl e | Inr v \<Rightarrow> f v)"

definition forward :: "spectral_linear \<Rightarrow> matrix \<Rightarrow> error + matrix" where
  "forward m x =
     bindE (Umultiply m x) (\<lambda>x1.
     bindE (matmul x1 (Sigma_mat m)) (\<lambda>x2.
     bindE (Vmultiply m x2) (\<lambda>x3.
     add_bias x3 (bias m))))"

text \<open>\<open>torch.eye(n)\<close>.\<close>

definition eye :: "nat \<Rightarrow> matrix" where
  "eye n = \<lparr>rows = map (\<lambda>i. (replicate n 0)[i := 1]) [0..<n], ncols = n\<rparr>"

definition effective_W :: "spectral_linear \<Rightarrow> error + matrix" where
  "effective_W m = forward m (eye (insize m))"

subsection \<open>The action of \<open>forward\<close> on one row\<close>

text \<open>The loops of \<open>Umultiply\<close> and \<open>Vmultiply\<close> on one row of a batch with \<open>d\<close>
  columns.\<close>

fun Hprod_loop_row :: "real list list \<Rightarrow> nat \<Rightarrow> nat \<Rightarrow> nat list \<Rightarrow> real list \<Rightarrow> real list" where
  "Hprod_loop_row M n d [] x = x"
| "Hprod_loop_row M n d (i # is) x = Hprod_loop_row M n d is (Hprod_row d (M ! i) (int n - int i) x)"

definition vadd :: "real list \<Rightarrow> real list \<Rightarrow> real list" where
  "vadd a b = map2 (+) a b"

text \<open>A linear map from rows of \<open>n\<close> entries to rows of \<open>m\<close> entries.\<close>

definition lin :: "nat \<Rightarrow> nat \<Rightarrow> (real list \<Rightarrow> real list) \<Rightarrow> bool" where
  "lin n m f =
     ((\<forall>a. length a = n \<longrightarrow> length (f a) = m) \<and>
      (\<forall>a b. length a = n \<and> length b = n \<longrightarrow> f (vadd a b) = vadd (f a) (f b)) \<and>
      (\<forall>c a. length a = n \<longrightarrow> f (smult c a) = smult c (f a)))"

text \<open>The linear combination of the rows \<open>vs\<close>, of \<open>m\<close> entries each, with the
  coefficients \<open>cs\<close>.\<close>

fun lincomb :: "nat \<Rightarrow> real list \<Rightarrow> real list list \<Rightarrow> real list" where
  "lincomb m (c # cs) (v # vs) = vadd (smult c v) (lincomb m cs vs)"
| "lincomb m _ _ = replicate m 0"

section \<open>simulators.py: tensors\<close>

text \<open>A tensor of any number of dimensions: its shape and its entries in row-major
  order.\<close>

datatype tensor = Tensor (shape: "nat list") (entries: "real list")

definition wf_tensor :: "tensor \<Rightarrow> bool" where
  "wf_tensor t = (length (entries t) = prod_list (shape t))"

text \<open>\<open>torch.stack\<close>: the tensors have one shape, the result a new leading axis.\<close>

definition stack :: "tensor list \<Rightarrow> error + tensor" where
  "stack ts =
     (case ts of
        [] \<Rightarrow> Inl ShapeError
      | t # _ \<Rightarrow>
          if list_all (\<lambda>t'. shape t' = shape t) ts
          then Inr (Tensor (length ts # shape t) (concat (map entries ts)))
          else Inl ShapeError)"

text \<open>\<open>torch.cat\<close> along axis 0: the tensors have at least one dimension and agree on the
  other axes; tensors of shape \<open>(0,)\<close> are skipped.\<close>

definition cat :: "tensor list \<Rightarrow> error + tensor" where
  "cat ts =
     (if ts = [] then Inl ShapeError
      else case filter (\<lambda>t. shape t \<noteq> [0]) ts of
        [] \<Rightarrow> Inr (Tensor [0] [])
      | t # ts' \<Rightarrow>
          if shape t \<noteq> [] \<and> list_all (\<lambda>t'. shape t' \<noteq> [] \<and> tl (shape t') = tl (shape t)) ts'
          then Inr (Tensor (sum_list (map (\<lambda>t'. hd (shape t')) (t # ts')) # tl (shape t))
                      (concat (map entries (t # ts'))))
          else Inl ShapeError)"

text \<open>\<open>torch.mean\<close> of all entries, a tensor of no dimension; nan for no entry.\<close>

definition mean :: "tensor \<Rightarrow> error + tensor" where
  "mean t =
     (if entries t = [] then Inl NotANumber
      else Inr (Tensor [] [sum_list (entries t) / real (length (entries t))]))"

text \<open>\<open>t[a:b, :, :]\<close>: three indices need three dimensions.\<close>

definition slice3 :: "int \<Rightarrow> int \<Rightarrow> tensor \<Rightarrow> error + tensor" where
  "slice3 a b t =
     (case shape t of
        n # d1 # d2 # ds \<Rightarrow>
          (let lo = slice_bound a n; hi = slice_bound b n; sz = prod_list (d1 # d2 # ds)
           in Inr (Tensor ((hi - lo) # d1 # d2 # ds)
                     (take ((hi - lo) * sz) (drop (lo * sz) (entries t)))))
      | _ \<Rightarrow> Inl IndexError)"

text \<open>\<open>t[k, :, :]\<close>: the index is within \<open>-n \<le> k < n\<close>, the first axis disappears.\<close>

definition index3 :: "int \<Rightarrow> tensor \<Rightarrow> error + tensor" where
  "index3 k t =
     (case shape t of
        n # d1 # d2 # ds \<Rightarrow>
          (let sz = prod_list (d1 # d2 # ds); i = (if k < 0 then int n + k else k)
           in if 0 \<le> i \<and> i < int n
              then Inr (Tensor (d1 # d2 # ds) (take sz (drop (nat i * sz) (entries t))))
              else Inl IndexError)
      | _ \<Rightarrow> Inl IndexError)"

text \<open>\<open>t[[0], :, :]\<close>: the first axis is kept, with the one index 0.\<close>

definition first_step :: "tensor \<Rightarrow> error + tensor" where
  "first_step t =
     (case shape t of
        n # d1 # d2 # ds \<Rightarrow>
          if 0 < n
          then Inr (Tensor (1 # d1 # d2 # ds) (take (prod_list (d1 # d2 # ds)) (entries t)))
          else Inl IndexError
      | _ \<Rightarrow> Inl IndexError)"

section \<open>simulators.py: MultiSequenceOpenLoopSimulator.agg\<close>

text \<open>The values of an output dictionary: a string (the name of a dataset), a tensor, or a
  Python float, which has no attribute \<open>shape\<close>.\<close>

datatype pyval = Str string | Tens tensor | PyFloat real

text \<open>After aggregation an entry is a tensor, or still the list of the collected values.\<close>

datatype aggval = Collected "pyval list" | Agg tensor

text \<open>\<open>agg_outputs[k].append(data[k])\<close> for the keys \<open>k\<close> of one dictionary.\<close>

fun collect_one :: "(string \<times> pyval) list \<Rightarrow> (string \<times> pyval list) list \<Rightarrow>
    error + (string \<times> pyval list) list" where
  "collect_one [] acc = Inr acc"
| "collect_one ((k, v) # kvs) acc =
     (case map_of acc k of
        None \<Rightarrow> Inl KeyError
      | Some vs \<Rightarrow> collect_one kvs (map (\<lambda>(k', vs'). if k' = k then (k', vs' @ [v]) else (k', vs')) acc))"

fun collect_all :: "(string \<times> pyval) list list \<Rightarrow> (string \<times> pyval list) list \<Rightarrow>
    error + (string \<times> pyval list) list" where
  "collect_all [] acc = Inr acc"
| "collect_all (d # ds) acc = bindE (collect_one d acc) (collect_all ds)"

fun the_tensors :: "pyval list \<Rightarrow> error + tensor list" where
  "the_tensors [] = Inr []"
| "the_tensors (Tens t # vs) = bindE (the_tensors vs) (\<lambda>ts. Inr (t # ts))"
| "the_tensors (_ # vs) = Inl TypeError"

text \<open>The body of the last loop of \<open>agg\<close> for one key.\<close>

definition agg_entry :: "bool \<Rightarrow> pyval list \<Rightarrow> error + aggval" where
  "agg_entry stk vs =
     (case vs of
        [] \<Rightarrow> Inl IndexError
      | Str s # _ \<Rightarrow> Inr (Collected vs)
      | PyFloat x # _ \<Rightarrow> Inl AttributeError
      | Tens t # _ \<Rightarrow>
          if length (shape t) < 2
          then bindE (the_tensors vs) (\<lambda>ts. bindE (stack ts) (\<lambda>s. bindE (mean s) (\<lambda>m. Inr (Agg m))))
          else if stk
          then bindE (the_tensors vs) (\<lambda>ts. bindE (stack ts) (\<lambda>s. Inr (Agg s)))
          else bindE (the_tensors vs) (\<lambda>ts. bindE (cat ts) (\<lambda>c. Inr (Agg c))))"

fun agg_entries :: "bool \<Rightarrow> (string \<times> pyval list) list \<Rightarrow> error + (string \<times> aggval) list" where
  "agg_entries stk [] = Inr []"
| "agg_entries stk ((k, vs) # rest) =
     bindE (agg_entry stk vs) (\<lambda>a. bindE (agg_entries stk rest) (\<lambda>rest'. Inr ((k, a) # rest')))"

text \<open>\<open>agg\<close>: a dictionary is the list of its items in insertion order.\<close>

definition agg :: "bool \<Rightarrow> (string \<times> pyval) list list \<Rightarrow> error + (string \<times> aggval) list" where
  "agg stk outputs =
     (case outputs of
        [] \<Rightarrow> Inl IndexError
      | d0 # _ \<Rightarrow>
          bindE (collect_all outputs (map (\<lambda>(k, v). (k, [])) d0)) (agg_entries stk))"

text \<open>The values that one dictionary contributes to the list collected for a key.\<close>

definition added :: "(string \<times> pyval) list \<Rightarrow> string \<Rightarrow> pyval list" where
  "added d k = (case map_of d k of None \<Rightarrow> [] | Some v \<Rightarrow> [v])"

section \<open>simulators.py: ClosedLoopSimulator\<close>

type_synonym tdict = "string \<rightharpoonup> tensor"

text \<open>A policy, an emulator or an estimator: the attributes the simulator reads and the
  call of the module.\<close>

record component =
  input_keys :: "string list"
  output_keys :: "string list"
  nsteps :: int
  window_size :: int
  call :: "tdict \<Rightarrow> error + tdict"

record closed_loop_simulator =
  sim_data :: tdict
  policy :: component
  emulator :: component
  estimator :: "component option"

text \<open>The loop of the three \<open>step_data_\<close> methods: for each key that the data has, the
  entry of the step data is the given part of the tensor.\<close>

fun step_data_of :: "string list \<Rightarrow> (tensor \<Rightarrow> error + tensor) \<Rightarrow> tdict \<Rightarrow> tdict \<Rightarrow>
    error + tdict" where
  "step_data_of [] part data step_data = Inr step_data"
| "step_data_of (key # keys) part data step_data =
     (case data key of
        None \<Rightarrow> step_data_of keys part data step_data
      | Some t \<Rightarrow> bindE (part t) (\<lambda>v. step_data_of keys part data (step_data(key \<mapsto> v))))"

definition step_data_policy :: "closed_loop_simulator \<Rightarrow> tdict \<Rightarrow> int \<Rightarrow> error + tdict" where
  "step_data_policy s data k =
     step_data_of (input_keys (policy s)) (slice3 (k - nsteps (policy s)) k) data Map.empty"

text \<open>The estimator's window is cut with \<open>self.policy.nsteps\<close>, as in the source.\<close>

definition step_data_estimator ::
  "closed_loop_simulator \<Rightarrow> component \<Rightarrow> tdict \<Rightarrow> int \<Rightarrow> error + tdict" where
  "step_data_estimator s est data k =
     step_data_of (input_keys est) (slice3 (k - nsteps (policy s)) k) data Map.empty"

definition step_data_emulator :: "closed_loop_simulator \<Rightarrow> tdict \<Rightarrow> int \<Rightarrow> error + tdict" where
  "step_data_emulator s data k =
     step_data_of (input_keys (emulator s)) (index3 k) data Map.empty"

definition rhc :: "closed_loop_simulator \<Rightarrow> tdict \<Rightarrow> error + tdict" where
  "rhc s policy_out =
     (case output_keys (policy s) of
        [] \<Rightarrow> Inl IndexError
      | key # _ \<Rightarrow>
          (case policy_out key of
             None \<Rightarrow> Inl KeyError
           | Some t \<Rightarrow> bindE (first_step t) (\<lambda>v. Inr (policy_out(key \<mapsto> v)))))"

fun append_data :: "(string \<times> tensor list) list \<Rightarrow> tdict \<Rightarrow>
    error + (string \<times> tensor list) list" where
  "append_data [] step_data = Inr []"
| "append_data ((key, ts) # rest) step_data =
     (case step_data key of
        None \<Rightarrow> Inl KeyError
      | Some t \<Rightarrow> bindE (append_data rest step_data) (\<lambda>rest'. Inr ((key, ts @ [t]) # rest')))"

text \<open>\<open>list.remove\<close>: the first occurrence goes, ValueError when there is none.\<close>

definition list_remove :: "string \<Rightarrow> string list \<Rightarrow> error + string list" where
  "list_remove x xs = (if x \<in> set xs then Inr (remove1 x xs) else Inl ValueError)"

text \<open>Reading an attribute of \<open>self.estimator\<close>, which may be \<open>None\<close>.\<close>

definition estimator_attr :: "closed_loop_simulator \<Rightarrow> (component \<Rightarrow> 'a) \<Rightarrow> error + 'a" where
  "estimator_attr s f = (case estimator s of None \<Rightarrow> Inl AttributeError | Some est \<Rightarrow> Inr (f est))"

text \<open>The keys of the closed-loop data, lines 303 to 307 of \<open>simulate\<close>.\<close>

definition cl_keys :: "closed_loop_simulator \<Rightarrow> error + string list" where
  "cl_keys s =
     bindE (estimator_attr s output_keys) (\<lambda>est_keys.
     bindE (list_remove ''reg_error_dynamics''
              (est_keys @ output_keys (policy s) @ output_keys (emulator s))) (\<lambda>ks1.
     bindE (list_remove ''reg_error_policy'' ks1) (\<lambda>ks2.
     if estimator s \<noteq> None then list_remove ''reg_error_estim'' ks2 else Inr ks2)))"

text \<open>The first time index, lines 312 and 313.\<close>

definition start_k :: "closed_loop_simulator \<Rightarrow> error + int" where
  "start_k s =
     bindE (estimator_attr s window_size) (\<lambda>w.
     Inr (if nsteps (policy s) \<ge> w then nsteps (policy s) else w))"

text \<open>\<open>range(start, start + nsim)\<close>.\<close>

definition sim_range :: "int \<Rightarrow> int \<Rightarrow> int list" where
  "sim_range start nsim = map (\<lambda>i. start + int i) [0..<nat nsim]"

text \<open>One pass of the loop body, lines 315 to 333.\<close>

definition cl_step :: "closed_loop_simulator \<Rightarrow> int \<Rightarrow> (string \<times> tensor list) list \<Rightarrow>
    error + (string \<times> tensor list) list" where
  "cl_step s k cl_data =
     bindE (case estimator s of
              Some est \<Rightarrow> bindE (step_data_estimator s est (sim_data s) k) (call est)
            | None \<Rightarrow> Inr Map.empty) (\<lambda>estim_out.
     bindE (step_data_policy s (sim_data s) k) (\<lambda>step_data.
     bindE (call (policy s) (step_data ++ estim_out)) (\<lambda>policy_out0.
     bindE (rhc s policy_out0) (\<lambda>policy_out.
     bindE (step_data_emulator s (sim_data s) k) (\<lambda>step_data'.
     bindE (call (emulator s) (step_data' ++ estim_out ++ policy_out)) (\<lambda>emulator_out.
     append_data cl_data (estim_out ++ policy_out ++ emulator_out)))))))"

fun cl_loop :: "closed_loop_simulator \<Rightarrow> int list \<Rightarrow> (string \<times> tensor list) list \<Rightarrow>
    error + (string \<times> tensor list) list" where
  "cl_loop s [] cl_data = Inr cl_data"
| "cl_loop s (k # ks) cl_data = bindE (cl_step s k cl_data) (cl_loop s ks)"

text \<open>The closed-loop data before the final concatenation: one list of step outputs for
  each key. A key that occurs twice among the output keys is one key of the dictionary.\<close>

definition simulate_steps :: "closed_loop_simulator \<Rightarrow> int \<Rightarrow>
    error + (string \<times> tensor list) list" where
  "simulate_steps s nsim =
     bindE (cl_keys s) (\<lambda>keys.
     bindE (start_k s) (\<lambda>k0.
     cl_loop s (sim_range k0 nsim) (map (\<lambda>key. (key, [])) (remdups keys))))"

fun cat_all :: "(string \<times> tensor list) list \<Rightarrow> error + (string \<times> tensor) list" where
  "cat_all [] = Inr []"
| "cat_all ((key, ts) # rest) =
     bindE (cat ts) (\<lambda>t. bindE (cat_all rest) (\<lambda>rest'. Inr ((key, t) # rest')))"

definition simulate :: "closed_loop_simulator \<Rightarrow> int \<Rightarrow> error + (string \<times> tensor) list" where
  "simulate s nsim = bindE (simulate_steps s nsim) cat_all"

section \<open>Facts about errors\<close>

lemma bindE_Inr_iff: "bindE m f = Inr y \<longleftrightarrow> (\<exists>v. m = Inr v \<and> f v = Inr y)"
  by (cases m) (simp_all add: bindE_def)

lemma bindE_Inr [simp]: "bindE (Inr v) f = f v"
  by (simp add: bindE_def)

lemma bindE_Inl [simp]: "bindE (Inl e) f = Inl e"
  by (simp add: bindE_def)

section \<open>Facts about the sigmoid and the softmax\<close>

lemma logistic_pos: "0 < logistic x"
  by (simp add: logistic_def add_pos_pos)

lemma logistic_lt_1: "logistic x < 1"
  by (simp add: logistic_def add_pos_pos)

lemma sigmoid_ge_0: "0 \<le> sigmoid x"
  using logistic_pos [of x] by (simp add: sigmoid_def)

lemma sigmoid_le_1: "sigmoid x \<le> 1"
  using logistic_lt_1 [of x] by (simp add: sigmoid_def)

lemma sigmoid_0: "sigmoid 0 = 1 / 2"
  by (simp add: sigmoid_def logistic_def)

lemma logistic_1_gt: "1 / 2 < logistic 1"
proof -
  have "exp (- 1 :: real) < 1" by simp
  then have "1 + exp (- 1 :: real) < 2" by simp
  moreover have "0 < 1 + exp (- 1 :: real)" by (simp add: add_pos_pos)
  ultimately have "1 / 2 < 1 / (1 + exp (- 1 :: real))"
    by (simp add: field_simps)
  then show ?thesis by (simp add: logistic_def)
qed

lemma sigmoid_1_gt: "1 / 2 < sigmoid 1"
proof -
  have "\<not> logistic 1 \<le> 1 / 2 ^ 150"
    using logistic_1_gt by simp
  then show ?thesis using logistic_1_gt by (simp add: sigmoid_def)
qed

lemma exp32_nonneg: "0 \<le> exp32 x"
  by (simp add: exp32_def)

lemma exp32_0: "exp32 0 = 1"
  by (simp add: exp32_def)



lemma elem_le_sum_list:
  fixes f :: "'a \<Rightarrow> real"
  shows "x \<in> set xs \<Longrightarrow> \<forall>y \<in> set xs. 0 \<le> f y \<Longrightarrow> f x \<le> sum_list (map f xs)"
proof (induction xs)
  case Nil
  then show ?case by simp
next
  case (Cons a xs)
  have nn: "0 \<le> sum_list (map f xs)" using Cons.prems(2) by (intro sum_list_nonneg) auto
  show ?case
  proof (cases "x = a")
    case True
    then show ?thesis using nn by simp
  next
    case False
    then have "f x \<le> sum_list (map f xs)" using Cons by simp
    moreover have "0 \<le> f a" using Cons.prems(2) by simp
    ultimately show ?thesis by simp
  qed
qed

lemma softmax_denominator:
  assumes "ws \<noteq> []"
  shows "1 \<le> sum_list (map (\<lambda>v. exp32 (v - Max (set ws))) ws)"
proof -
  have "Max (set ws) \<in> set ws" using assms by (intro Max_in) simp_all
  then have "exp32 (Max (set ws) - Max (set ws)) \<le> sum_list (map (\<lambda>v. exp32 (v - Max (set ws))) ws)"
    by (rule elem_le_sum_list) (simp add: exp32_nonneg)
  then show ?thesis by (simp add: exp32_0)
qed

lemma softmax_row_nonneg: "q \<in> set (softmax_row ws) \<Longrightarrow> 0 \<le> q"
proof -
  assume q: "q \<in> set (softmax_row ws)"
  then have ne: "ws \<noteq> []" by (auto simp: softmax_row_def)
  from q ne obtain w where
    "q = exp32 (w - Max (set ws)) / sum_list (map (\<lambda>v. exp32 (v - Max (set ws))) ws)"
    by (auto simp: softmax_row_def Let_def)
  then show "0 \<le> q"
    using softmax_denominator [OF ne] exp32_nonneg [of "w - Max (set ws)"] by simp
qed

lemma sum_list_divide: "sum_list (map (\<lambda>w. f w / (c::real)) ws) = sum_list (map f ws) / c"
  by (induction ws) (simp_all add: add_divide_distrib)

lemma softmax_row_sum: "ws \<noteq> [] \<Longrightarrow> sum_list (softmax_row ws) = 1"
  using softmax_denominator [of ws] by (simp add: softmax_row_def Let_def sum_list_divide)

lemma length_softmax_row: "length (softmax_row ws) = length ws"
  by (simp add: softmax_row_def Let_def)

section \<open>Facts about \<open>Sigma\<close>\<close>

lemma sigmas_bounds:
  assumes "sigma_min \<le> sigma_max"
  shows "sigma_min \<le> 2 * ((sigma_max - sigma_min) / 2) * (sigmoid x - 1 / 2) + (sigma_min + (sigma_max - sigma_min) / 2)"
    and "2 * ((sigma_max - sigma_min) / 2) * (sigmoid x - 1 / 2) + (sigma_min + (sigma_max - sigma_min) / 2) \<le> sigma_max"
proof -
  have e: "2 * ((sigma_max - sigma_min) / 2) * (sigmoid x - 1 / 2) + (sigma_min + (sigma_max - sigma_min) / 2)
      = sigma_min + (sigma_max - sigma_min) * sigmoid x"
    by (simp add: field_simps)
  have d: "0 \<le> sigma_max - sigma_min" using assms by simp
  have "0 \<le> (sigma_max - sigma_min) * sigmoid x"
    using d sigmoid_ge_0 [of x] by simp
  then show "sigma_min \<le> 2 * ((sigma_max - sigma_min) / 2) * (sigmoid x - 1 / 2) + (sigma_min + (sigma_max - sigma_min) / 2)"
    unfolding e by simp
  have "(sigma_max - sigma_min) * sigmoid x \<le> (sigma_max - sigma_min) * 1"
    using d sigmoid_le_1 [of x] by (intro mult_left_mono) simp_all
  then show "2 * ((sigma_max - sigma_min) / 2) * (sigmoid x - 1 / 2) + (sigma_min + (sigma_max - sigma_min) / 2) \<le> sigma_max"
    unfolding e by simp
qed

lemma diag_nth:
  "i < length v \<Longrightarrow> j < length v \<Longrightarrow> diag v ! i ! j = (if i = j then v ! i else 0)"
  by (simp add: diag_def)

lemma length_diag: "length (diag v) = length v"
  by (simp add: diag_def)

lemma length_diag_row: "i < length v \<Longrightarrow> length (diag v ! i) = length v"
  by (simp add: diag_def)

lemma length_sigmas: "length (sigmas m) = length (p m)"
  by (simp add: sigmas_def)

lemma Sigma_rows:
  assumes "length (p m) = min (insize m) (outsize m)"
  shows "rows (Sigma_mat m) =
     map (\<lambda>i. map (\<lambda>j. if i = j then sigmas m ! i else 0) [0..<outsize m]) [0..<insize m]"
proof -
  let ?pad = "sigmas m @ replicate (nat \<bar>int (insize m) - int (outsize m)\<bar>) 0"
  have len: "length ?pad = max (insize m) (outsize m)"
    using assms by (simp add: length_sigmas)
  have nth_pad: "?pad ! i = (if i < min (insize m) (outsize m) then sigmas m ! i else 0)" if "i < max (insize m) (outsize m)" for i
    using that assms len by (auto simp: nth_append length_sigmas)
  show ?thesis
  proof (rule nth_equalityI)
    show "length (rows (Sigma_mat m)) = length (map (\<lambda>i. map (\<lambda>j. if i = j then sigmas m ! i else 0) [0..<outsize m]) [0..<insize m])"
      using len by (simp add: Sigma_mat_def Let_def length_diag del: length_append)
  next
    fix i assume "i < length (rows (Sigma_mat m))"
    then have i: "i < insize m"
      using len by (simp add: Sigma_mat_def Let_def length_diag del: length_append)
    have row: "rows (Sigma_mat m) ! i = take (outsize m) (diag ?pad ! i)"
      using i len by (simp add: Sigma_mat_def Let_def length_diag del: length_append)
    have il: "i < length ?pad" using i len by simp
    show "rows (Sigma_mat m) ! i = map (\<lambda>i. map (\<lambda>j. if i = j then sigmas m ! i else 0) [0..<outsize m]) [0..<insize m] ! i"
    proof (rule nth_equalityI)
      show "length (rows (Sigma_mat m) ! i) = length (map (\<lambda>i. map (\<lambda>j. if i = j then sigmas m ! i else 0) [0..<outsize m]) [0..<insize m] ! i)"
        using i il len unfolding row by (simp add: length_diag_row del: length_append)
    next
      fix j assume "j < length (rows (Sigma_mat m) ! i)"
      then have j: "j < outsize m"
        using i il len unfolding row by (simp add: length_diag_row del: length_append)
      then have jl: "j < length ?pad" using len by simp
      have "rows (Sigma_mat m) ! i ! j = diag ?pad ! i ! j"
        unfolding row using j by simp
      also have "\<dots> = (if i = j then ?pad ! i else 0)"
        using il jl by (rule diag_nth)
      also have "\<dots> = (if i = j then sigmas m ! i else 0)"
        using nth_pad [of i] i j by auto
      finally show "rows (Sigma_mat m) ! i ! j = map (\<lambda>i. map (\<lambda>j. if i = j then sigmas m ! i else 0) [0..<outsize m]) [0..<insize m] ! i ! j"
        using i j by simp
    qed
  qed
qed

lemma Sigma_ncols:
  assumes "length (p m) = min (insize m) (outsize m)"
  shows "ncols (Sigma_mat m) = outsize m"
  using assms by (simp add: Sigma_mat_def Let_def length_sigmas)

lemma Sigma_square:
  assumes "length (p m) = insize m" "insize m = outsize m"
  shows "Sigma_mat m = \<lparr>rows = diag (sigmas m), ncols = insize m\<rparr>"
proof -
  have "\<forall>x \<in> set (diag (sigmas m)). length x = length (sigmas m)"
    by (auto simp: diag_def)
  then have "map (take (length (sigmas m))) (diag (sigmas m)) = diag (sigmas m)"
    by (simp add: map_idI)
  then show ?thesis
    using assms by (simp add: Sigma_mat_def Let_def length_sigmas length_diag)
qed

section \<open>Facts about the Perron-Frobenius map\<close>

lemma weighted_bounds:
  fixes a q :: "real list"
  assumes "length a = length q"
    and "\<forall>x \<in> set q. 0 \<le> x"
    and "\<forall>x \<in> set a. lo \<le> x \<and> x \<le> hi"
  shows "lo * sum_list q \<le> sum_list (map2 (*) a q) \<and> sum_list (map2 (*) a q) \<le> hi * sum_list q"
  using assms
proof (induction a q rule: list_induct2)
  case Nil
  then show ?case by simp
next
  case (Cons x xs y ys)
  then have ih: "lo * sum_list ys \<le> sum_list (map2 (*) xs ys)" "sum_list (map2 (*) xs ys) \<le> hi * sum_list ys"
    by simp_all
  have y: "0 \<le> y" and x: "lo \<le> x" "x \<le> hi" using Cons.prems by simp_all
  have "lo * y \<le> x * y" "x * y \<le> hi * y"
    using x y by (simp_all add: mult_right_mono)
  then show ?case using ih by (simp add: distrib_left)
qed

lemma s_bounds:
  fixes lo hi :: real
  assumes "lo \<le> hi"
  shows "lo \<le> hi - (hi - lo) * sigmoid x" "hi - (hi - lo) * sigmoid x \<le> hi"
proof -
  have d: "0 \<le> hi - lo" using assms by simp
  have "(hi - lo) * sigmoid x \<le> (hi - lo) * 1"
    using d sigmoid_le_1 [of x] by (intro mult_left_mono) simp_all
  then show "lo \<le> hi - (hi - lo) * sigmoid x" by simp
  have "0 \<le> (hi - lo) * sigmoid x"
    using d sigmoid_ge_0 [of x] by simp
  then show "hi - (hi - lo) * sigmoid x \<le> hi" by simp
qed

lemma pf_row:
  assumes "pf_shape m n_in n_out" "i < n_in"
  shows "pf_effective_W m ! i = map2 (*) (s_clamped m ! i) (softmax_row (pf_weight m ! i))"
    and "length (s_clamped m ! i) = n_out"
    and "length (pf_weight m ! i) = n_out"
    and "s_clamped m ! i = map (\<lambda>s. pf_sigma_max m - (pf_sigma_max m - pf_sigma_min m) * sigmoid s) (pf_scaling m ! i)"
  using assms
  by (simp_all add: pf_shape_def pf_effective_W_def hadamard_def s_clamped_def list_all_length)

lemma pf_row_sum_bounds:
  assumes sh: "pf_shape m n_in n_out" and i: "i < n_in" and pos: "0 < n_out"
    and le: "pf_sigma_min m \<le> pf_sigma_max m"
  shows "pf_sigma_min m \<le> sum_list (pf_effective_W m ! i)"
    and "sum_list (pf_effective_W m ! i) \<le> pf_sigma_max m"
proof -
  let ?a = "s_clamped m ! i" and ?q = "softmax_row (pf_weight m ! i)"
  have ne: "pf_weight m ! i \<noteq> []" using pf_row(3) [OF sh i] pos by auto
  have len: "length ?a = length ?q"
    using pf_row [OF sh i] by (simp add: length_softmax_row)
  have q: "\<forall>x \<in> set ?q. 0 \<le> x" using softmax_row_nonneg by auto
  have a: "\<forall>x \<in> set ?a. pf_sigma_min m \<le> x \<and> x \<le> pf_sigma_max m"
    unfolding pf_row(4) [OF sh i] using s_bounds [OF le] by auto
  have "pf_sigma_min m * sum_list ?q \<le> sum_list (map2 (*) ?a ?q) \<and>
        sum_list (map2 (*) ?a ?q) \<le> pf_sigma_max m * sum_list ?q"
    using len q a by (rule weighted_bounds)
  then show "pf_sigma_min m \<le> sum_list (pf_effective_W m ! i)"
    and "sum_list (pf_effective_W m ! i) \<le> pf_sigma_max m"
    unfolding pf_row(1) [OF sh i] softmax_row_sum [OF ne] by simp_all
qed

lemma sum_list_const_mult:
  fixes q :: "real list"
  shows "sum_list (map2 (*) (map (\<lambda>_. c) xs) q) = c * sum_list (take (length xs) q)"
proof (induction xs arbitrary: q)
  case Nil
  then show ?case by simp
next
  case (Cons x xs)
  then show ?case by (cases q) (simp_all add: distrib_left)
qed

lemma pf_row_sum_const:
  assumes sh: "pf_shape m n_in n_out" and i: "i < n_in" and pos: "0 < n_out"
    and c: "\<forall>s \<in> set (pf_scaling m ! i). s = c"
  shows "sum_list (pf_effective_W m ! i) = pf_sigma_max m - (pf_sigma_max m - pf_sigma_min m) * sigmoid c"
proof -
  let ?q = "softmax_row (pf_weight m ! i)"
  let ?s = "pf_sigma_max m - (pf_sigma_max m - pf_sigma_min m) * sigmoid c"
  have ne: "pf_weight m ! i \<noteq> []" using pf_row(3) [OF sh i] pos by auto
  have "s_clamped m ! i = map (\<lambda>_. ?s) (pf_scaling m ! i)"
    unfolding pf_row(4) [OF sh i] using c by (intro map_cong) simp_all
  moreover have "length (pf_scaling m ! i) = length ?q"
    using pf_row(2,3,4) [OF sh i] by (simp add: length_softmax_row)
  ultimately have "sum_list (pf_effective_W m ! i) = ?s * sum_list ?q"
    unfolding pf_row(1) [OF sh i] by (simp add: sum_list_const_mult)
  then show ?thesis using softmax_row_sum [OF ne] by simp
qed



section \<open>Facts about slices and \<open>Hprod\<close>\<close>

lemma slice_bound_le: "slice_bound i n \<le> n"
  by (auto simp: slice_bound_def)

lemma slice_bound_neg: "1 \<le> k \<Longrightarrow> slice_bound (- int k) n = n - k"
  by (auto simp: slice_bound_def)

lemma length_slice_from: "length (slice_from i xs) = length xs - slice_bound i (length xs)"
  by (simp add: slice_from_def)

lemma length_slice_to: "length (slice_to i xs) = slice_bound i (length xs)"
  by (simp add: slice_to_def slice_bound_le)

lemma Hprod_row_explicit:
  assumes "1 \<le> k" "length x = d"
  shows "Hprod_row d u (int k) x =
     take (d - k) x @
     vsub (drop (d - k) x)
       (smult (2 * dot (drop (d - k) x) (drop (length u - k) u)
                 / dot (drop (length u - k) u) (drop (length u - k) u))
          (drop (length u - k) u))"
proof (cases "k < d")
  case True
  then show ?thesis
    using assms by (simp add: Hprod_row_def Let_def slice_from_def slice_to_def slice_bound_neg)
next
  case False
  then have "d - k = 0" by simp
  then show ?thesis
    using assms False by (simp add: Hprod_row_def Let_def slice_from_def slice_to_def slice_bound_neg)
qed

section \<open>Facts about the rows of \<open>forward\<close>\<close>

lemma length_vadd: "length (vadd a b) = min (length a) (length b)"
  by (simp add: vadd_def)

lemma length_vsub: "length (vsub a b) = min (length a) (length b)"
  by (simp add: vsub_def)

lemma length_smult: "length (smult c a) = length a"
  by (simp add: smult_def)

lemma nth_vadd: "i < length a \<Longrightarrow> i < length b \<Longrightarrow> vadd a b ! i = a ! i + b ! i"
  by (simp add: vadd_def)

lemma nth_vsub: "i < length a \<Longrightarrow> i < length b \<Longrightarrow> vsub a b ! i = a ! i - b ! i"
  by (simp add: vsub_def)

lemma nth_smult: "i < length a \<Longrightarrow> smult c a ! i = c * a ! i"
  by (simp add: smult_def)

lemma dot_vadd: "length a = length b \<Longrightarrow> dot (vadd a b) u = dot a u + dot b u"
proof (induction a b arbitrary: u rule: list_induct2)
  case Nil
  then show ?case by (simp add: dot_def vadd_def)
next
  case (Cons x xs y ys)
  show ?case
  proof (cases u)
    case Nil
    then show ?thesis by (simp add: dot_def vadd_def)
  next
    case (Cons z zs)
    have "dot (vadd xs ys) zs = dot xs zs + dot ys zs" by (rule Cons.IH)
    then show ?thesis
      unfolding Cons by (simp add: dot_def vadd_def algebra_simps)
  qed
qed

lemma dot_smult: "dot (smult c a) u = c * dot a u"
proof (induction a arbitrary: u)
  case Nil
  then show ?case by (simp add: dot_def smult_def)
next
  case (Cons x xs)
  show ?case
  proof (cases u)
    case Nil
    then show ?thesis by (simp add: dot_def smult_def)
  next
    case (Cons z zs)
    have "dot (smult c xs) zs = c * dot xs zs" by (rule Cons.IH)
    then show ?thesis
      unfolding Cons by (simp add: dot_def smult_def algebra_simps)
  qed
qed

lemma drop_vadd: "drop n (vadd a b) = vadd (drop n a) (drop n b)"
  by (simp add: vadd_def drop_map drop_zip)

lemma take_vadd: "take n (vadd a b) = vadd (take n a) (take n b)"
  by (simp add: vadd_def take_map take_zip)

lemma drop_smult: "drop n (smult c a) = smult c (drop n a)"
  by (simp add: smult_def drop_map)

lemma take_smult: "take n (smult c a) = smult c (take n a)"
  by (simp add: smult_def take_map)

lemma vadd_append:
  "length p1 = length p2 \<Longrightarrow> vadd (p1 @ q1) (p2 @ q2) = vadd p1 p2 @ vadd q1 q2"
  by (simp add: vadd_def)

lemma smult_append: "smult c (p1 @ q1) = smult c p1 @ smult c q1"
  by (simp add: smult_def)

lemma reflect_add:
  assumes "length a = length u" "length b = length u"
  shows "vsub (vadd a b) (smult (s + t) u) = vadd (vsub a (smult s u)) (vsub b (smult t u))"
  using assms
  by (intro nth_equalityI)
    (simp_all add: length_vsub length_vadd length_smult nth_vsub nth_vadd nth_smult algebra_simps)

lemma reflect_smult:
  assumes "length a = length u"
  shows "vsub (smult c a) (smult (c * s) u) = smult c (vsub a (smult s u))"
  using assms
  by (intro nth_equalityI)
    (simp_all add: length_vsub length_smult nth_vsub nth_smult algebra_simps)

lemma lin_Hprod_row:
  assumes sh: "d - slice_bound (- k) d = length (slice_from (- k) u)"
  shows "lin d d (Hprod_row d u k)"
proof -
  define uk where "uk = slice_from (- k) u"
  define sb where "sb = slice_bound (- k) d"
  define al where "al = (\<lambda>x. 2 * dot (drop sb x) uk / dot uk uk)"
  define R where "R = (\<lambda>x. vsub (drop sb x) (smult (al x) uk))"
  have sble: "sb \<le> d" by (simp add: sb_def slice_bound_le)
  have luk: "length uk = d - sb" using sh by (simp add: uk_def sb_def)
  have sb0: "sb = 0" if "\<not> k < int d"
    using that by (auto simp: sb_def slice_bound_def)
  have H: "Hprod_row d u k x = (if k < int d then take sb x @ R x else R x)" if "length x = d" for x
    using that
    by (simp add: Hprod_row_def Let_def slice_from_def slice_to_def uk_def sb_def R_def al_def)
  have lR: "length (R x) = d - sb" if "length x = d" for x
    using that luk by (simp add: R_def length_vsub length_smult)
  have al_add: "al (vadd a b) = al a + al b" if "length a = d" "length b = d" for a b
    using that by (simp add: al_def drop_vadd dot_vadd add_divide_distrib distrib_left)
  have al_smult: "al (smult c a) = c * al a" for c a
    by (simp add: al_def drop_smult dot_smult)
  have R_add: "R (vadd a b) = vadd (R a) (R b)" if "length a = d" "length b = d" for a b
    unfolding R_def al_add [OF that] drop_vadd
    using that luk by (intro reflect_add) simp_all
  have R_smult: "R (smult c a) = smult c (R a)" if "length a = d" for c a
    unfolding R_def al_smult drop_smult
    using that luk by (intro reflect_smult) simp_all
  have len: "length (Hprod_row d u k a) = d" if "length a = d" for a
    using that sble sb0 by (simp add: H lR)
  have add: "Hprod_row d u k (vadd a b) = vadd (Hprod_row d u k a) (Hprod_row d u k b)"
    if "length a = d" "length b = d" for a b
  proof -
    have "length (vadd a b) = d" using that by (simp add: length_vadd)
    then show ?thesis
      using that R_add [OF that]
      by (simp add: H take_vadd vadd_append)
  qed
  have sm: "Hprod_row d u k (smult c a) = smult c (Hprod_row d u k a)" if "length a = d" for c a
  proof -
    have "length (smult c a) = d" using that by (simp add: length_smult)
    then show ?thesis
      using that R_smult [OF that]
      by (simp add: H take_smult smult_append)
  qed
  show ?thesis
    unfolding lin_def using len add sm by blast
qed

lemma lin_comp: "lin n m f \<Longrightarrow> lin m l g \<Longrightarrow> lin n l (\<lambda>x. g (f x))"
  unfolding lin_def by simp

lemma lin_id: "lin n n (\<lambda>x. x)"
  by (simp add: lin_def)


lemma Hprod_ncols:
  "(if k < int d then slice_bound (- k) d + (d - slice_bound (- k) d) else d - slice_bound (- k) d) = d"
  by (auto simp: slice_bound_def)

lemma Hprod_Inr:
  assumes "Hprod x u k = Inr y"
  shows "y = \<lparr>rows = map (Hprod_row (ncols x) u k) (rows x), ncols = ncols x\<rparr>"
    and "ncols x - slice_bound (- k) (ncols x) = length (slice_from (- k) u)"
  using assms by (simp_all add: Hprod_def Let_def Hprod_ncols split: if_splits)

lemma Hprod_transfer:
  assumes "Hprod e u k = Inr e'" and "rows e \<noteq> []" and "ncols x = ncols e"
  shows "Hprod x u k = Inr \<lparr>rows = map (Hprod_row (ncols x) u k) (rows x), ncols = ncols x\<rparr>"
proof -
  from assms(1) have sh: "ncols e - slice_bound (- k) (ncols e) = length (slice_from (- k) u)"
    and nn: "\<not> (rows e \<noteq> [] \<and> slice_from (- k) u \<noteq> [] \<and> dot (slice_from (- k) u) (slice_from (- k) u) = 0)"
    by (simp_all add: Hprod_def Let_def split: if_splits)
  have c1: "\<not> ncols x - slice_bound (- k) (ncols x) \<noteq> length (slice_from (- k) u)"
    using sh assms(3) by simp
  have c2: "\<not> (rows x \<noteq> [] \<and> slice_from (- k) u \<noteq> [] \<and> dot (slice_from (- k) u) (slice_from (- k) u) = 0)"
    using nn assms(2) by blast
  show ?thesis
    unfolding Hprod_def Let_def by (simp only: c1 c2 if_False Hprod_ncols)
qed

lemma Hprod_loop_transfer:
  "Hprod_loop M n js e = Inr e' \<Longrightarrow> rows e \<noteq> [] \<Longrightarrow> ncols x = ncols e \<Longrightarrow>
   Hprod_loop M n js x = Inr \<lparr>rows = map (Hprod_loop_row M n (ncols x) js) (rows x), ncols = ncols x\<rparr>
   \<and> lin (ncols e) (ncols e) (Hprod_loop_row M n (ncols e) js)"
proof (induction js arbitrary: e x)
  case Nil
  then show ?case by (simp add: lin_id)
next
  case (Cons i js)
  from Cons.prems(1) have i: "i < length M"
    by (simp split: if_splits)
  from Cons.prems(1) i obtain e1 where e1: "Hprod e (M ! i) (int n - int i) = Inr e1"
    and rest: "Hprod_loop M n js e1 = Inr e'"
    by (auto split: sum.splits)
  have e1_eq: "e1 = \<lparr>rows = map (Hprod_row (ncols e) (M ! i) (int n - int i)) (rows e), ncols = ncols e\<rparr>"
    and sh: "ncols e - slice_bound (- (int n - int i)) (ncols e) = length (slice_from (- (int n - int i)) (M ! i))"
    using Hprod_Inr [OF e1] by simp_all
  have ne1: "rows e1 \<noteq> []" and nc1: "ncols e1 = ncols e"
    using Cons.prems(2) by (simp_all add: e1_eq)
  define x1 where "x1 = \<lparr>rows = map (Hprod_row (ncols x) (M ! i) (int n - int i)) (rows x), ncols = ncols x\<rparr>"
  have hx: "Hprod x (M ! i) (int n - int i) = Inr x1"
    unfolding x1_def using e1 Cons.prems(2,3) by (rule Hprod_transfer)
  have ncx: "ncols x1 = ncols e1" using Cons.prems(3) nc1 by (simp add: x1_def)
  from Cons.IH [OF rest ne1 ncx]
  have lp: "Hprod_loop M n js x1 = Inr \<lparr>rows = map (Hprod_loop_row M n (ncols x1) js) (rows x1), ncols = ncols x1\<rparr>"
    and ln: "lin (ncols e1) (ncols e1) (Hprod_loop_row M n (ncols e1) js)"
    by simp_all
  have l1: "lin (ncols e) (ncols e) (Hprod_row (ncols e) (M ! i) (int n - int i))"
    using sh by (rule lin_Hprod_row)
  have "lin (ncols e) (ncols e) (\<lambda>a. Hprod_loop_row M n (ncols e) js (Hprod_row (ncols e) (M ! i) (int n - int i) a))"
    using l1 ln unfolding nc1 by (rule lin_comp)
  then have lin_all: "lin (ncols e) (ncols e) (Hprod_loop_row M n (ncols e) (i # js))"
    by (simp add: lin_def)
  have "Hprod_loop M n (i # js) x = Hprod_loop M n js x1"
    using i hx by simp
  also have "\<dots> = Inr \<lparr>rows = map (Hprod_loop_row M n (ncols x) (i # js)) (rows x), ncols = ncols x\<rparr>"
    unfolding lp by (simp add: x1_def)
  finally have "Hprod_loop M n (i # js) x =
      Inr \<lparr>rows = map (Hprod_loop_row M n (ncols x) (i # js)) (rows x), ncols = ncols x\<rparr>" .
  then show ?case using lin_all by (rule conjI)
qed

lemma vec_mat_dot:
  "vec_mat a b = map (\<lambda>j. dot a (map (\<lambda>rb. rb ! j) (rows b))) [0..<ncols b]"
  by (simp add: vec_mat_def dot_def zip_map2 case_prod_unfold comp_def)

lemma lin_vec_mat: "lin n (ncols b) (\<lambda>a. vec_mat a b)"
  unfolding lin_def
proof (intro conjI allI impI)
  fix a :: "real list"
  show "length (vec_mat a b) = ncols b" by (simp add: vec_mat_def)
next
  fix a a' :: "real list"
  assume "length a = n \<and> length a' = n"
  then have "length a = length a'" by simp
  then show "vec_mat (vadd a a') b = vadd (vec_mat a b) (vec_mat a' b)"
    by (intro nth_equalityI) (simp_all add: vec_mat_dot length_vadd nth_vadd dot_vadd)
next
  fix c and a :: "real list"
  show "vec_mat (smult c a) b = smult c (vec_mat a b)"
    by (intro nth_equalityI) (simp_all add: vec_mat_dot length_smult nth_smult dot_smult)
qed

lemma lin_zero:
  assumes "lin n m f"
  shows "f (replicate n 0) = replicate m 0"
proof -
  have z: "smult 0 (replicate n 0) = replicate n 0"
    by (simp add: smult_def)
  have "f (smult 0 (replicate n 0)) = smult 0 (f (replicate n 0))"
    using assms by (simp add: lin_def)
  moreover have "length (f (replicate n 0)) = m"
    using assms by (simp add: lin_def)
  then have "smult 0 (f (replicate n 0)) = replicate m 0"
    by (intro nth_equalityI) (simp_all add: length_smult nth_smult)
  ultimately show ?thesis unfolding z by simp
qed

lemma length_lincomb:
  "\<forall>v \<in> set vs. length v = m \<Longrightarrow> length (lincomb m cs vs) = m"
proof (induction m cs vs rule: lincomb.induct)
  case (1 m c cs v vs)
  then show ?case by (simp add: length_vadd length_smult)
qed simp_all

lemma lin_lincomb:
  assumes "lin n m f"
  shows "\<forall>v \<in> set vs. length v = n \<Longrightarrow> f (lincomb n cs vs) = lincomb m cs (map f vs)"
proof (induction cs arbitrary: vs)
  case Nil
  then show ?case using lin_zero [OF assms] by simp
next
  case (Cons c cs)
  show ?case
  proof (cases vs)
    case Nil
    then show ?thesis using lin_zero [OF assms] by simp
  next
    case vs: (Cons v vs')
    have lv: "length v = n" and rest: "\<forall>v \<in> set vs'. length v = n"
      using Cons.prems vs by simp_all
    have ll: "length (lincomb n cs vs') = n" using rest by (rule length_lincomb)
    have ls: "length (smult c v) = n" using lv by (simp add: length_smult)
    have "f (vadd (smult c v) (lincomb n cs vs')) = vadd (f (smult c v)) (f (lincomb n cs vs'))"
      using assms ls ll by (simp add: lin_def)
    also have "f (smult c v) = smult c (f v)"
      using assms lv by (simp add: lin_def)
    also have "f (lincomb n cs vs') = lincomb m cs (map f vs')"
      using rest by (rule Cons.IH)
    finally show ?thesis unfolding vs by simp
  qed
qed

lemma dot_Nil [simp]: "dot [] b = 0" "dot a [] = 0"
  by (simp_all add: dot_def)

lemma dot_Cons [simp]: "dot (x # xs) (y # ys) = x * y + dot xs ys"
  by (simp add: dot_def)

lemma lincomb_dot:
  "\<forall>v \<in> set vs. length v = m \<Longrightarrow>
   lincomb m cs vs = map (\<lambda>j. dot cs (map (\<lambda>v. v ! j) vs)) [0..<m]"
proof (induction cs arbitrary: vs)
  case Nil
  then show ?case by (intro nth_equalityI) simp_all
next
  case (Cons c cs)
  show ?case
  proof (cases vs)
    case Nil
    then show ?thesis by (intro nth_equalityI) simp_all
  next
    case vs: (Cons v vs')
    have lv: "length v = m" and rest: "\<forall>v \<in> set vs'. length v = m"
      using Cons.prems vs by simp_all
    have ih: "lincomb m cs vs' = map (\<lambda>j. dot cs (map (\<lambda>v. v ! j) vs')) [0..<m]"
      using rest by (rule Cons.IH)
    show ?thesis
      unfolding vs lincomb.simps ih using lv
      by (intro nth_equalityI) (simp_all add: length_vadd length_smult nth_vadd nth_smult)
  qed
qed

lemma vec_mat_lincomb:
  "\<forall>v \<in> set vs. length v = m \<Longrightarrow> vec_mat a \<lparr>rows = vs, ncols = m\<rparr> = lincomb m a vs"
  by (simp add: vec_mat_dot lincomb_dot)

lemma dot_zero: "dot a (replicate n 0) = 0"
proof (induction a arbitrary: n)
  case Nil
  then show ?case by simp
next
  case (Cons x xs)
  then show ?case by (cases n) simp_all
qed

lemma dot_unit: "j < length a \<Longrightarrow> dot a ((replicate (length a) 0)[j := 1]) = a ! j"
proof (induction a arbitrary: j)
  case Nil
  then show ?case by simp
next
  case (Cons x xs)
  then show ?case by (cases j) (simp_all add: dot_zero)
qed

lemma eye_column:
  assumes "j < n"
  shows "map (\<lambda>v. v ! j) (rows (eye n)) = (replicate n 0)[j := 1]"
  using assms by (intro nth_equalityI) (auto simp: eye_def nth_list_update)

lemma eye_rows_length: "\<forall>v \<in> set (rows (eye n)). length v = n"
  by (auto simp: eye_def)

lemma lincomb_eye:
  assumes "length a = n"
  shows "lincomb n a (rows (eye n)) = a"
proof (rule nth_equalityI)
  show "length (lincomb n a (rows (eye n))) = length a"
    using assms eye_rows_length by (simp add: length_lincomb)
next
  fix j assume "j < length (lincomb n a (rows (eye n)))"
  then have j: "j < n" using eye_rows_length by (simp add: length_lincomb)
  have "lincomb n a (rows (eye n)) ! j = dot a (map (\<lambda>v. v ! j) (rows (eye n)))"
    using j by (simp add: lincomb_dot [OF eye_rows_length])
  also have "\<dots> = dot a ((replicate (length a) 0)[j := 1])"
    using j assms by (simp add: eye_column)
  also have "\<dots> = a ! j" using j assms by (intro dot_unit) simp
  finally show "lincomb n a (rows (eye n)) ! j = a ! j" .
qed

lemma lin_represent:
  assumes "lin n m f" and "length a = n"
  shows "vec_mat a \<lparr>rows = map f (rows (eye n)), ncols = m\<rparr> = f a"
proof -
  have "\<forall>v \<in> set (map f (rows (eye n))). length v = m"
    using assms(1) eye_rows_length by (auto simp: lin_def)
  then have "vec_mat a \<lparr>rows = map f (rows (eye n)), ncols = m\<rparr> = lincomb m a (map f (rows (eye n)))"
    by (rule vec_mat_lincomb)
  also have "\<dots> = f (lincomb n a (rows (eye n)))"
    using lin_lincomb [OF assms(1) eye_rows_length] by simp
  also have "\<dots> = f a" using assms(2) by (simp add: lincomb_eye)
  finally show ?thesis .
qed


lemma map2_add_zero:
  assumes "length row = length b" and "\<forall>v \<in> set b. v = (0::real)"
  shows "map2 (+) row b = row"
  using assms by (intro nth_equalityI) simp_all

lemma add_bias_zero:
  assumes "add_bias y b = Inr z" and "\<forall>v \<in> set b. v = 0"
    and "\<forall>row \<in> set (rows y). length row = ncols y"
  shows "z = y"
proof (cases "length b = ncols y")
  case True
  have "map (\<lambda>row. map2 (+) row b) (rows y) = rows y"
    using assms(2,3) True by (intro map_idI map2_add_zero) simp_all
  then show ?thesis using assms(1) True by (simp add: add_bias_def)
next
  case False
  then have l1: "length b = 1" using assms(1) by (simp add: add_bias_def split: if_splits)
  then have "b ! 0 = 0" using assms(2) by (cases b) simp_all
  then have "map (map (\<lambda>v. v + b ! 0)) (rows y) = rows y"
    by (simp add: map_idI)
  then show ?thesis using assms(1) False l1 by (simp add: add_bias_def)
qed

lemma add_bias_transfer:
  assumes "add_bias y b = Inr z" and "ncols y' = ncols y"
  shows "\<exists>z'. add_bias y' b = Inr z'"
  using assms by (simp add: add_bias_def split: if_splits)

section \<open>Claims about linear.py\<close>

text \<open>
  C1. For \<open>sigma_min \<le> sigma_max\<close>, with the fields \<open>r = (sigma_max - sigma_min) / 2\<close>
  and \<open>sigma_mean = sigma_min + r\<close>, and every value of the parameter vector \<open>p\<close> (of
  length \<open>min(insize, outsize)\<close>), \<open>Sigma()\<close> is the \<open>insize\<close> by \<open>outsize\<close> matrix
  whose entry \<open>(i, i)\<close> is \<open>2 * r * (sigmoid(p_i) - 0.5) + sigma_mean\<close> and whose other
  entries are zero; each of these singular values lies in \<open>[sigma_min, sigma_max]\<close>; and
  for \<open>insize = outsize\<close> the result is the diagonal matrix of the singular values, with
  no padding.
\<close>

theorem Sigma_bounded_diagonal:
  assumes "sigma_min \<le> sigma_max"
    and "r m = (sigma_max - sigma_min) / 2"
    and "sigma_mean m = sigma_min + r m"
    and "length (p m) = min (insize m) (outsize m)"
  shows "let sv = (\<lambda>i. 2 * r m * (sigmoid (p m ! i) - 1 / 2) + sigma_mean m)
         in Sigma_mat m =
              \<lparr>rows = map (\<lambda>i. map (\<lambda>j. if i = j then sv i else 0) [0..<outsize m]) [0..<insize m],
               ncols = outsize m\<rparr>
            \<and> (\<forall>i < min (insize m) (outsize m). sigma_min \<le> sv i \<and> sv i \<le> sigma_max)
            \<and> (insize m = outsize m \<longrightarrow>
                 Sigma_mat m = \<lparr>rows = diag (map sv [0..<insize m]), ncols = insize m\<rparr>)"
proof -
  define sv where "sv = (\<lambda>i. 2 * r m * (sigmoid (p m ! i) - 1 / 2) + sigma_mean m)"
  have len: "length (p m) = min (insize m) (outsize m)" by (rule assms(4))
  have sg: "sigmas m = map sv [0..<min (insize m) (outsize m)]"
    using len by (intro nth_equalityI) (simp_all add: sigmas_def sv_def)
  have nth_sg: "sigmas m ! i = sv i" if "i < min (insize m) (outsize m)" for i
    using that by (simp add: sg)
  have rows_eq: "rows (Sigma_mat m) =
      map (\<lambda>i. map (\<lambda>j. if i = j then sv i else 0) [0..<outsize m]) [0..<insize m]"
    unfolding Sigma_rows [OF len]
    by (intro map_cong refl) (auto simp: nth_sg)
  have c1: "Sigma_mat m =
      \<lparr>rows = map (\<lambda>i. map (\<lambda>j. if i = j then sv i else 0) [0..<outsize m]) [0..<insize m],
       ncols = outsize m\<rparr>"
    using rows_eq Sigma_ncols [OF len] by (cases "Sigma_mat m") simp
  have c2: "\<forall>i < min (insize m) (outsize m). sigma_min \<le> sv i \<and> sv i \<le> sigma_max"
    unfolding sv_def assms(3) assms(2) using sigmas_bounds [OF assms(1)] by blast
  have c3: "Sigma_mat m = \<lparr>rows = diag (map sv [0..<insize m]), ncols = insize m\<rparr>"
    if "insize m = outsize m"
  proof -
    have "length (p m) = insize m" "insize m = outsize m"
      using that len by simp_all
    then have "Sigma_mat m = \<lparr>rows = diag (sigmas m), ncols = insize m\<rparr>"
      by (rule Sigma_square)
    then show ?thesis using that sg by simp
  qed
  show ?thesis
    using c1 c2 c3 unfolding Let_def sv_def by blast
qed

text \<open>The theorem at \<open>insize = 4\<close>, \<open>outsize = 6\<close>, \<open>sigma_min = 3/5\<close>,
  \<open>sigma_max = 1\<close> and \<open>p = 0\<close>: every singular value is \<open>4/5\<close>.\<close>

theorem Sigma_bounded_diagonal_witness:
  "ncols (Sigma_mat \<lparr>insize = 4, outsize = 6, n_U_reflectors = 20, n_V_reflectors = 20,
       r = 1 / 5, sigma_mean = 4 / 5, U = [], p = [0, 0, 0, 0], V = [], bias = []\<rparr>) = 6 \<and>
   rows (Sigma_mat \<lparr>insize = 4, outsize = 6, n_U_reflectors = 20, n_V_reflectors = 20,
       r = 1 / 5, sigma_mean = 4 / 5, U = [], p = [0, 0, 0, 0], V = [], bias = []\<rparr>) =
     [[4 / 5, 0, 0, 0, 0, 0], [0, 4 / 5, 0, 0, 0, 0], [0, 0, 4 / 5, 0, 0, 0], [0, 0, 0, 4 / 5, 0, 0]]"
proof -
  have h1: "(3 / 5 :: real) \<le> 1" by simp
  have h2: "r \<lparr>insize = 4, outsize = 6, n_U_reflectors = 20, n_V_reflectors = 20,
       r = 1 / 5, sigma_mean = 4 / 5, U = [], p = [0, 0, 0, 0], V = [], bias = []\<rparr> = (1 - 3 / 5) / 2" by simp
  have h3: "sigma_mean \<lparr>insize = 4, outsize = 6, n_U_reflectors = 20, n_V_reflectors = 20,
       r = 1 / 5, sigma_mean = 4 / 5, U = [], p = [0, 0, 0, 0], V = [], bias = []\<rparr> = 3 / 5 + r \<lparr>insize = 4, outsize = 6, n_U_reflectors = 20, n_V_reflectors = 20,
       r = 1 / 5, sigma_mean = 4 / 5, U = [], p = [0, 0, 0, 0], V = [], bias = []\<rparr>" by simp
  have h4: "length (p \<lparr>insize = 4, outsize = 6, n_U_reflectors = 20, n_V_reflectors = 20,
       r = 1 / 5, sigma_mean = 4 / 5, U = [], p = [0, 0, 0, 0], V = [], bias = []\<rparr>) = min (insize \<lparr>insize = 4, outsize = 6, n_U_reflectors = 20, n_V_reflectors = 20,
       r = 1 / 5, sigma_mean = 4 / 5, U = [], p = [0, 0, 0, 0], V = [], bias = []\<rparr>) (outsize \<lparr>insize = 4, outsize = 6, n_U_reflectors = 20, n_V_reflectors = 20,
       r = 1 / 5, sigma_mean = 4 / 5, U = [], p = [0, 0, 0, 0], V = [], bias = []\<rparr>)" by simp
  have u4: "[0..<4] = [0, 1, 2, 3]" and u6: "[0..<6] = [0, 1, 2, 3, 4, 5]"
    by (simp_all add: upt_rec)
  show ?thesis
    using Sigma_bounded_diagonal [OF h1 h2 h3 h4]
    by (simp add: Let_def u4 u6 sigmoid_0)
qed

text \<open>
  C2 (as in the specification). Each row sum of \<open>effective_W()\<close> is at least
  \<open>sigma_min\<close> and equals the scalar sigma for that row,
  \<open>sigma = sigma_max - (sigma_max - sigma_min) * sigmoid(scaling)\<close>. This fails twice.
  \<open>scaling\<close> has one entry for each entry of the weight, and for the weight \<open>[[0, 0]]\<close>
  and the scaling \<open>[[0, 1]]\<close> the row sum is neither of the two values of sigma in the row.
  And a weight of no column has the row sum 0, which is below \<open>sigma_min = 19/20\<close>.
\<close>

theorem pf_row_sum_counterexample:
  "sum_list (pf_effective_W \<lparr>pf_weight = [[0, 0]], pf_scaling = [[0, 1]], pf_sigma_min = 0,
       pf_sigma_max = 1, pf_bias = [0, 0]\<rparr> ! 0) \<noteq> s_clamped \<lparr>pf_weight = [[0, 0]], pf_scaling = [[0, 1]], pf_sigma_min = 0,
       pf_sigma_max = 1, pf_bias = [0, 0]\<rparr> ! 0 ! 0
  \<and> sum_list (pf_effective_W \<lparr>pf_weight = [[0, 0]], pf_scaling = [[0, 1]], pf_sigma_min = 0,
       pf_sigma_max = 1, pf_bias = [0, 0]\<rparr> ! 0) \<noteq> s_clamped \<lparr>pf_weight = [[0, 0]], pf_scaling = [[0, 1]], pf_sigma_min = 0,
       pf_sigma_max = 1, pf_bias = [0, 0]\<rparr> ! 0 ! 1
  \<and> sum_list (pf_effective_W \<lparr>pf_weight = [[]], pf_scaling = [[]], pf_sigma_min = 19 / 20,
       pf_sigma_max = 1, pf_bias = []\<rparr> ! 0) < pf_sigma_min \<lparr>pf_weight = [[]], pf_scaling = [[]], pf_sigma_min = 19 / 20,
       pf_sigma_max = 1, pf_bias = []\<rparr>"
proof -
  have m: "Max {0 :: real} = 0" by simp
  have "1 / 2 + (2 - sigmoid 1 * 2) / 2 \<noteq> 1 \<and> 1 / 4 + (1 - sigmoid 1) / 2 \<noteq> 1 - sigmoid 1"
    using sigmoid_1_gt by argo
  then show ?thesis
    by (simp add: pf_effective_W_def hadamard_def s_clamped_def softmax_row_def sigmoid_0
        exp32_0 Let_def)
qed

text \<open>
  C2 (amended). For \<open>sigma_min \<le> sigma_max\<close> and at least one column, each row sum of
  \<open>effective_W()\<close> is at least \<open>sigma_min\<close> and at most \<open>sigma_max\<close>; every entry of
  \<open>sigma = sigma_max - (sigma_max - sigma_min) * sigmoid(scaling)\<close>, which has one entry
  for each entry of the weight, lies in \<open>[sigma_min, sigma_max]\<close>; and a row sum equals
  \<open>sigma_max - (sigma_max - sigma_min) * sigmoid(c)\<close> when every entry of \<open>scaling\<close> in
  that row equals \<open>c\<close>.
\<close>

theorem pf_row_sum_bounded:
  assumes "pf_shape m n_in n_out" and "i < n_in" and "0 < n_out"
    and "pf_sigma_min m \<le> pf_sigma_max m"
  shows "pf_sigma_min m \<le> sum_list (pf_effective_W m ! i)
       \<and> sum_list (pf_effective_W m ! i) \<le> pf_sigma_max m
       \<and> (\<forall>s \<in> set (s_clamped m ! i). pf_sigma_min m \<le> s \<and> s \<le> pf_sigma_max m)
       \<and> ((\<forall>s \<in> set (pf_scaling m ! i). s = c) \<longrightarrow>
            sum_list (pf_effective_W m ! i) =
              pf_sigma_max m - (pf_sigma_max m - pf_sigma_min m) * sigmoid c)"
proof -
  have "\<forall>s \<in> set (s_clamped m ! i). pf_sigma_min m \<le> s \<and> s \<le> pf_sigma_max m"
    unfolding pf_row(4) [OF assms(1,2)] using s_bounds [OF assms(4)] by auto
  then show ?thesis
    using pf_row_sum_bounds [OF assms] pf_row_sum_const [OF assms(1,2,3)] by blast
qed

theorem pf_row_sum_bounded_witness:
  "pf_shape \<lparr>pf_weight = [[0, 0]], pf_scaling = [[0, 0]], pf_sigma_min = 19 / 20,
       pf_sigma_max = 1, pf_bias = [0, 0]\<rparr> 1 2 \<and> sum_list (pf_effective_W \<lparr>pf_weight = [[0, 0]], pf_scaling = [[0, 0]], pf_sigma_min = 19 / 20,
       pf_sigma_max = 1, pf_bias = [0, 0]\<rparr> ! 0) = 39 / 40"
proof -
  have h: "pf_shape \<lparr>pf_weight = [[0, 0]], pf_scaling = [[0, 0]], pf_sigma_min = 19 / 20,
       pf_sigma_max = 1, pf_bias = [0, 0]\<rparr> 1 2"
    by (simp add: pf_shape_def)
  show ?thesis
    using h pf_row_sum_bounded [OF h, of 0 0] by (simp add: sigmoid_0)
qed

text \<open>
  C8. \<open>regularization_error()\<close> returns a non-negative scalar for every variant of the
  map layer. \<open>LassoLinear\<close> does not: its method reads the attribute \<open>norm\<close> of the bound
  method \<open>self.effective_W\<close>, which raises AttributeError, whatever the parameters are.
\<close>

theorem lasso_regularization_error_raises:
  "regularization_error (LassoLinear u_param v_param b gamma) = Inl AttributeError"
  by simp




text \<open>
  C3. For a batch \<open>x\<close> of \<open>d\<close> columns, a reflector \<open>u\<close> and an active length
  \<open>1 \<le> k \<le> d\<close> (with \<open>u\<close> of at least \<open>k\<close> entries, the last \<open>k\<close> not all
  zero), \<open>Hprod(x, u, k)\<close> returns a batch of the same shape in which the first
  \<open>d - k\<close> columns are those of \<open>x\<close> and the last \<open>k\<close> columns are those of
  \<open>x\<close> minus \<open>alpha\<close> times \<open>u[-k:]\<close>, where \<open>alpha\<close> is, for each row,
  \<open>2 * (x[-k:] . u[-k:]) / (u[-k:] . u[-k:])\<close>.
\<close>

theorem Hprod_reflects:
  assumes "wf_matrix x" and "ncols x = d" and "1 \<le> k" and "k \<le> d" and "k \<le> length u"
    and "dot (drop (length u - k) u) (drop (length u - k) u) \<noteq> 0"
  shows "let uk = drop (length u - k) u;
             alpha = (\<lambda>row. 2 * dot (drop (d - k) row) uk / dot uk uk)
         in \<exists>y. Hprod x u (int k) = Inr y \<and> ncols y = d \<and> nrows y = nrows x
              \<and> (\<forall>i < nrows x.
                    take (d - k) (rows y ! i) = take (d - k) (rows x ! i)
                  \<and> drop (d - k) (rows y ! i) =
                      vsub (drop (d - k) (rows x ! i)) (smult (alpha (rows x ! i)) uk))"
proof -
  define y where "y = \<lparr>rows = map (Hprod_row d u (int k)) (rows x), ncols = d\<rparr>"
  have kx: "ncols x - slice_bound (- int k) (ncols x) = length (slice_from (- int k) u)"
    using assms(2-5) by (simp add: slice_bound_neg length_slice_from)
  have uk': "slice_from (- int k) u = drop (length u - k) u"
    using assms(3) by (simp add: slice_from_def slice_bound_neg)
  have ne: "\<not> (rows x \<noteq> [] \<and> slice_from (- int k) u \<noteq> [] \<and>
      dot (slice_from (- int k) u) (slice_from (- int k) u) = 0)"
    unfolding uk' using assms(6) by simp
  have nc: "(if int k < int (ncols x)
        then slice_bound (- int k) (ncols x) + (ncols x - slice_bound (- int k) (ncols x))
        else ncols x - slice_bound (- int k) (ncols x)) = d"
    using assms(2-4) by (simp add: slice_bound_neg)
  have H: "Hprod x u (int k) = Inr y"
    unfolding Hprod_def Let_def y_def using kx ne nc assms(2) by simp
  have yi: "rows y ! i = take (d - k) (rows x ! i) @
        vsub (drop (d - k) (rows x ! i))
          (smult (2 * dot (drop (d - k) (rows x ! i)) (drop (length u - k) u)
                    / dot (drop (length u - k) u) (drop (length u - k) u))
             (drop (length u - k) u))"
    and l2: "length (take (d - k) (rows x ! i)) = d - k"
    if i: "i < nrows x" for i
  proof -
    have len: "length (rows x ! i) = d"
      using assms(1,2) i by (simp add: wf_matrix_def nrows_def list_all_length)
    show "rows y ! i = take (d - k) (rows x ! i) @
        vsub (drop (d - k) (rows x ! i))
          (smult (2 * dot (drop (d - k) (rows x ! i)) (drop (length u - k) u)
                    / dot (drop (length u - k) u) (drop (length u - k) u))
             (drop (length u - k) u))"
      using i Hprod_row_explicit [OF assms(3) len, of u]
      by (simp add: y_def nrows_def)
    show "length (take (d - k) (rows x ! i)) = d - k" using len by simp
  qed
  show ?thesis
    unfolding Let_def
  proof (intro exI [of _ y] conjI allI impI)
    show "Hprod x u (int k) = Inr y" by (rule H)
    show "ncols y = d" by (simp add: y_def)
    show "nrows y = nrows x" by (simp add: y_def nrows_def)
  next
    fix i assume i: "i < nrows x"
    show "take (d - k) (rows y ! i) = take (d - k) (rows x ! i)"
      unfolding yi [OF i] using l2 [OF i] by simp
  next
    fix i assume i: "i < nrows x"
    show "drop (d - k) (rows y ! i) =
        vsub (drop (d - k) (rows x ! i))
          (smult (2 * dot (drop (d - k) (rows x ! i)) (drop (length u - k) u)
                    / dot (drop (length u - k) u) (drop (length u - k) u))
             (drop (length u - k) u))"
      unfolding yi [OF i] using l2 [OF i] by simp
  qed
qed

theorem Hprod_reflects_witness:
  "Hprod \<lparr>rows = [[1, 2, 3], [0, 1, 0]], ncols = 3\<rparr> [0, 1, 1] 2 =
     Inr \<lparr>rows = [[1, - 3, - 2], [0, 0, - 1]], ncols = 3\<rparr>"
proof -
  have h1: "wf_matrix \<lparr>rows = [[1, 2, 3], [0, 1, 0]], ncols = 3\<rparr>"
    by (simp add: wf_matrix_def)
  have h2: "ncols \<lparr>rows = [[1, 2, 3], [0, 1, 0]], ncols = 3\<rparr> = 3" by simp
  have h3: "1 \<le> (2::nat)" and h4: "(2::nat) \<le> 3" and h5: "2 \<le> length [0, 1, 1 :: real]"
    by simp_all
  have h6: "dot (drop (length [0, 1, 1 :: real] - 2) [0, 1, 1]) (drop (length [0, 1, 1 :: real] - 2) [0, 1, 1]) \<noteq> 0"
    by (simp add: dot_def)
  have e: "Hprod \<lparr>rows = [[1, 2, 3], [0, 1, 0]], ncols = 3\<rparr> [0, 1, 1] (int 2) =
     Inr \<lparr>rows = [[1, - 3, - 2], [0, 0, - 1]], ncols = 3\<rparr>"
    by (simp add: Hprod_def Hprod_row_def Let_def slice_from_def slice_to_def slice_bound_def
        dot_def vsub_def smult_def)
  show ?thesis
    using e Hprod_reflects [OF h1 h2 h3 h4 h5 h6] by simp
qed

text \<open>
  C9 (as in the specification). For every \<open>SpectralLinear\<close> whose bias is all zeros and
  every batch \<open>x\<close> of \<open>insize\<close> columns, \<open>forward(x)\<close> equals the product of \<open>x\<close>
  and \<open>effective_W()\<close>. This fails twice. With the reflector counts that the constructor
  takes by default, 20 and 20, and two rows in \<open>U\<close> and \<open>V\<close>, \<open>forward\<close> and
  \<open>effective_W\<close> raise IndexError at \<open>self.U[2]\<close>. And with \<open>insize = 0\<close> and a zero
  reflector in \<open>V\<close>, \<open>effective_W()\<close> is the matrix of no row, the product with it is
  zero, and \<open>forward(x)\<close> is nan.
\<close>

theorem forward_counterexample:
  "forward \<lparr>insize = 2, outsize = 2, n_U_reflectors = 20, n_V_reflectors = 20,
       r = 1 / 5, sigma_mean = 4 / 5, U = [[1, 0], [0, 1]], p = [0, 0],
       V = [[0, 1], [0, 1]], bias = [0, 0]\<rparr> \<lparr>rows = [[1, 2]], ncols = 2\<rparr> = Inl IndexError
   \<and> effective_W \<lparr>insize = 2, outsize = 2, n_U_reflectors = 20, n_V_reflectors = 20,
       r = 1 / 5, sigma_mean = 4 / 5, U = [[1, 0], [0, 1]], p = [0, 0],
       V = [[0, 1], [0, 1]], bias = [0, 0]\<rparr> = Inl IndexError
   \<and> effective_W \<lparr>insize = 0, outsize = 1, n_U_reflectors = 0, n_V_reflectors = 1,
       r = 1 / 5, sigma_mean = 4 / 5, U = [], p = [], V = [[0]], bias = [0]\<rparr> = Inr \<lparr>rows = [], ncols = 1\<rparr>
   \<and> matmul \<lparr>rows = [[]], ncols = 0\<rparr> \<lparr>rows = [], ncols = 1\<rparr> = Inr \<lparr>rows = [[0]], ncols = 1\<rparr>
   \<and> forward \<lparr>insize = 0, outsize = 1, n_U_reflectors = 0, n_V_reflectors = 1,
       r = 1 / 5, sigma_mean = 4 / 5, U = [], p = [], V = [[0]], bias = [0]\<rparr> \<lparr>rows = [[]], ncols = 0\<rparr> = Inl NotANumber"
proof -
  have u20: "[0..<20] = 0 # 1 # 2 # [3..<20]"
    by (simp add: upt_rec)
  have u1: "[0..<1] = [0]"
    by (simp add: upt_rec)
  have eye2: "eye 2 = \<lparr>rows = [[1, 0], [0, 1]], ncols = 2\<rparr>"
    by (simp add: eye_def upt_rec numeral_2_eq_2)
  have eye0: "eye 0 = \<lparr>rows = [], ncols = 0\<rparr>"
    by (simp add: eye_def)
  note defs = forward_def Umultiply_def Vmultiply_def Hprod_def Hprod_row_def
    matmul_def vec_mat_def Sigma_mat_def sigmas_def diag_def add_bias_def
    slice_from_def slice_to_def slice_bound_def dot_def vsub_def smult_def nrows_def Let_def
  have a: "forward \<lparr>insize = 2, outsize = 2, n_U_reflectors = 20, n_V_reflectors = 20,
       r = 1 / 5, sigma_mean = 4 / 5, U = [[1, 0], [0, 1]], p = [0, 0],
       V = [[0, 1], [0, 1]], bias = [0, 0]\<rparr> \<lparr>rows = [[1, 2]], ncols = 2\<rparr> = Inl IndexError"
    by (simp add: defs u20)
  have b: "effective_W \<lparr>insize = 2, outsize = 2, n_U_reflectors = 20, n_V_reflectors = 20,
       r = 1 / 5, sigma_mean = 4 / 5, U = [[1, 0], [0, 1]], p = [0, 0],
       V = [[0, 1], [0, 1]], bias = [0, 0]\<rparr> = Inl IndexError"
    by (simp add: effective_W_def eye2 defs u20)
  have c: "effective_W \<lparr>insize = 0, outsize = 1, n_U_reflectors = 0, n_V_reflectors = 1,
       r = 1 / 5, sigma_mean = 4 / 5, U = [], p = [], V = [[0]], bias = [0]\<rparr> = Inr \<lparr>rows = [], ncols = 1\<rparr>"
    by (simp add: effective_W_def eye0 defs u1)
  have d: "matmul \<lparr>rows = [[]], ncols = 0\<rparr> \<lparr>rows = [], ncols = 1\<rparr> = Inr \<lparr>rows = [[0]], ncols = 1\<rparr>"
    by (simp add: defs u1)
  have e: "forward \<lparr>insize = 0, outsize = 1, n_U_reflectors = 0, n_V_reflectors = 1,
       r = 1 / 5, sigma_mean = 4 / 5, U = [], p = [], V = [[0]], bias = [0]\<rparr> \<lparr>rows = [[]], ncols = 0\<rparr> = Inl NotANumber"
    by (simp add: defs u1)
  show ?thesis using a b c d e by simp
qed

text \<open>
  C9 (amended). For a \<open>SpectralLinear\<close> of positive \<open>insize\<close> whose bias is all zeros
  and whose \<open>effective_W()\<close> returns a matrix \<open>W\<close>, \<open>forward(x)\<close> returns the matrix
  product of \<open>x\<close> and \<open>W\<close> for every batch \<open>x\<close> of \<open>insize\<close> columns.
\<close>

theorem forward_is_matmul_effective_W:
  assumes W: "effective_W m = Inr W" and pos: "0 < insize m"
    and zb: "\<forall>v \<in> set (bias m). v = 0"
    and wf: "wf_matrix x" and nc: "ncols x = insize m"
  shows "\<exists>y. forward m x = Inr y \<and> matmul x W = Inr y"
proof -
  define n where "n = insize m"
  define mo where "mo = outsize m"
  define S where "S = Sigma_mat m"
  define fU where "fU = Hprod_loop_row (U m) n n [0..<n_U_reflectors m]"
  define fV where "fV = Hprod_loop_row (V m) mo mo (rev [0..<n_V_reflectors m])"
  define F where "F = (\<lambda>a. fV (vec_mat (fU a) S))"
  have En: "ncols (eye n) = n" and Er: "rows (eye n) \<noteq> []"
    using pos by (simp_all add: eye_def n_def)
  from W obtain e1 e2 e3 where u1: "Umultiply m (eye n) = Inr e1"
    and m1: "matmul e1 S = Inr e2" and v1: "Vmultiply m e2 = Inr e3"
    and b1: "add_bias e3 (bias m) = Inr W"
    unfolding effective_W_def forward_def bindE_Inr_iff n_def S_def by blast
  \<comment> \<open>the reflections of \<open>U\<close>\<close>
  have lu: "Hprod_loop (U m) n [0..<n_U_reflectors m] (eye n) = Inr e1"
    using u1 En by (simp add: Umultiply_def n_def split: if_splits)
  have ncx: "ncols x = ncols (eye n)" using nc En by (simp add: n_def)
  have e1_eq: "e1 = \<lparr>rows = map fU (rows (eye n)), ncols = n\<rparr>"
    and linU: "lin n n fU"
    using Hprod_loop_transfer [OF lu Er refl] lu En by (simp_all add: fU_def)
  have x1: "Umultiply m x = Inr \<lparr>rows = map fU (rows x), ncols = n\<rparr>"
    using Hprod_loop_transfer [OF lu Er ncx] nc by (simp add: Umultiply_def fU_def n_def)
  \<comment> \<open>the product with \<open>Sigma\<close>\<close>
  have nS: "n = nrows S" and e2_eq: "e2 = \<lparr>rows = map (\<lambda>a. vec_mat a S) (rows e1), ncols = ncols S\<rparr>"
    using m1 by (auto simp: matmul_def e1_eq split: if_splits)
  have x2: "matmul \<lparr>rows = map fU (rows x), ncols = n\<rparr> S =
      Inr \<lparr>rows = map (\<lambda>a. vec_mat (fU a) S) (rows x), ncols = ncols S\<rparr>"
    using nS by (simp add: matmul_def comp_def)
  have e2_rows: "rows e2 = map (\<lambda>a. vec_mat (fU a) S) (rows (eye n))"
    by (simp add: e2_eq e1_eq comp_def)
  \<comment> \<open>the reflections of \<open>V\<close>\<close>
  have ncS: "ncols S = mo" and lv: "Hprod_loop (V m) mo (rev [0..<n_V_reflectors m]) e2 = Inr e3"
    using v1 by (simp_all add: Vmultiply_def mo_def e2_eq split: if_splits)
  have nce2: "ncols e2 = mo" using ncS by (simp add: e2_eq)
  have e2r: "rows e2 \<noteq> []" using Er by (simp add: e2_rows)
  have e3_eq: "e3 = \<lparr>rows = map fV (rows e2), ncols = mo\<rparr>"
    and linV: "lin mo mo fV"
    using Hprod_loop_transfer [OF lv e2r refl] lv nce2 by (simp_all add: fV_def)
  have x3: "Vmultiply m \<lparr>rows = map (\<lambda>a. vec_mat (fU a) S) (rows x), ncols = ncols S\<rparr> =
      Inr \<lparr>rows = map F (rows x), ncols = mo\<rparr>"
    using Hprod_loop_transfer [OF lv e2r, of "\<lparr>rows = map (\<lambda>a. vec_mat (fU a) S) (rows x), ncols = ncols S\<rparr>"]
      ncS nce2
    by (simp add: Vmultiply_def fV_def mo_def F_def comp_def)
  have e3_rows: "e3 = \<lparr>rows = map F (rows (eye n)), ncols = mo\<rparr>"
    by (simp add: e3_eq e2_rows F_def comp_def)
  \<comment> \<open>the whole map is linear\<close>
  have linS: "lin n mo (\<lambda>a. vec_mat a S)"
    using lin_vec_mat [of n S] ncS by simp
  have linF: "lin n mo F"
    unfolding F_def using lin_comp [OF lin_comp [OF linU linS] linV] .
  have lenF: "length (F a) = mo" if "length a = n" for a
    using linF that by (simp add: lin_def)
  \<comment> \<open>the bias\<close>
  have "\<forall>row \<in> set (rows e3). length row = ncols e3"
    using lenF eye_rows_length by (auto simp: e3_rows)
  then have W_eq: "W = \<lparr>rows = map F (rows (eye n)), ncols = mo\<rparr>"
    using add_bias_zero [OF b1 zb] e3_rows by simp
  have xr: "\<forall>row \<in> set (rows x). length row = n"
    using wf nc by (simp add: wf_matrix_def n_def list_all_iff)
  define y where "y = \<lparr>rows = map F (rows x), ncols = mo\<rparr>"
  have yr: "\<forall>row \<in> set (rows y). length row = ncols y"
    using lenF xr by (auto simp: y_def)
  obtain z where z: "add_bias y (bias m) = Inr z"
    using add_bias_transfer [OF b1, of y] by (auto simp: y_def e3_eq)
  have zy: "z = y" using z zb yr by (rule add_bias_zero)
  have fw: "forward m x = Inr y"
    unfolding forward_def x1 bindE_Inr S_def [symmetric] x2 x3 y_def [symmetric]
    using z zy by simp
  \<comment> \<open>the product with the materialised matrix\<close>
  have "map (\<lambda>a. vec_mat a W) (rows x) = map F (rows x)"
    unfolding W_eq using xr lin_represent [OF linF] by (intro map_cong) simp_all
  moreover have "ncols x = nrows W"
    using nc by (simp add: W_eq nrows_def eye_def n_def)
  ultimately have mm: "matmul x W = Inr y"
    by (simp add: matmul_def y_def W_eq)
  show ?thesis using fw mm by blast
qed


theorem forward_is_matmul_effective_W_witness:
  "effective_W \<lparr>insize = 2, outsize = 2, n_U_reflectors = 1, n_V_reflectors = 1,
       r = 1 / 5, sigma_mean = 4 / 5, U = [[1, 0], [0, 1]], p = [0, 0],
       V = [[0, 1], [0, 1]], bias = [0, 0]\<rparr> = Inr \<lparr>rows = [[- (4 / 5), 0], [0, - (4 / 5)]], ncols = 2\<rparr>
   \<and> forward \<lparr>insize = 2, outsize = 2, n_U_reflectors = 1, n_V_reflectors = 1,
       r = 1 / 5, sigma_mean = 4 / 5, U = [[1, 0], [0, 1]], p = [0, 0],
       V = [[0, 1], [0, 1]], bias = [0, 0]\<rparr> \<lparr>rows = [[1, 2]], ncols = 2\<rparr> = Inr \<lparr>rows = [[- (4 / 5), - (8 / 5)]], ncols = 2\<rparr>
   \<and> matmul \<lparr>rows = [[1, 2]], ncols = 2\<rparr> \<lparr>rows = [[- (4 / 5), 0], [0, - (4 / 5)]], ncols = 2\<rparr>
       = Inr \<lparr>rows = [[- (4 / 5), - (8 / 5)]], ncols = 2\<rparr>"
proof -
  have u1: "[0..<1] = [0]" and u2: "[0..<2] = [0, 1]"
    by (simp_all add: upt_rec)
  have eye2: "eye 2 = \<lparr>rows = [[1, 0], [0, 1]], ncols = 2\<rparr>"
    by (simp add: eye_def u2 numeral_2_eq_2)
  note defs = effective_W_def forward_def Umultiply_def Vmultiply_def Hprod_def Hprod_row_def
    matmul_def vec_mat_def Sigma_mat_def sigmas_def diag_def eye2 add_bias_def
    slice_from_def slice_to_def slice_bound_def dot_def vsub_def smult_def nrows_def
    sigmoid_0 Let_def u1 u2
  have W: "effective_W \<lparr>insize = 2, outsize = 2, n_U_reflectors = 1, n_V_reflectors = 1,
       r = 1 / 5, sigma_mean = 4 / 5, U = [[1, 0], [0, 1]], p = [0, 0],
       V = [[0, 1], [0, 1]], bias = [0, 0]\<rparr> = Inr \<lparr>rows = [[- (4 / 5), 0], [0, - (4 / 5)]], ncols = 2\<rparr>"
    by (simp add: defs)
  have fw: "forward \<lparr>insize = 2, outsize = 2, n_U_reflectors = 1, n_V_reflectors = 1,
       r = 1 / 5, sigma_mean = 4 / 5, U = [[1, 0], [0, 1]], p = [0, 0],
       V = [[0, 1], [0, 1]], bias = [0, 0]\<rparr> \<lparr>rows = [[1, 2]], ncols = 2\<rparr> = Inr \<lparr>rows = [[- (4 / 5), - (8 / 5)]], ncols = 2\<rparr>"
    by (simp add: defs)
  have pos: "0 < insize \<lparr>insize = 2, outsize = 2, n_U_reflectors = 1, n_V_reflectors = 1,
       r = 1 / 5, sigma_mean = 4 / 5, U = [[1, 0], [0, 1]], p = [0, 0],
       V = [[0, 1], [0, 1]], bias = [0, 0]\<rparr>" and zb: "\<forall>v \<in> set (bias \<lparr>insize = 2, outsize = 2, n_U_reflectors = 1, n_V_reflectors = 1,
       r = 1 / 5, sigma_mean = 4 / 5, U = [[1, 0], [0, 1]], p = [0, 0],
       V = [[0, 1], [0, 1]], bias = [0, 0]\<rparr>). v = 0"
    by simp_all
  have wf: "wf_matrix \<lparr>rows = [[1, 2]], ncols = 2\<rparr>"
    and nc: "ncols \<lparr>rows = [[1, 2]], ncols = 2\<rparr> = insize \<lparr>insize = 2, outsize = 2, n_U_reflectors = 1, n_V_reflectors = 1,
       r = 1 / 5, sigma_mean = 4 / 5, U = [[1, 0], [0, 1]], p = [0, 0],
       V = [[0, 1], [0, 1]], bias = [0, 0]\<rparr>"
    by (simp_all add: wf_matrix_def)
  from forward_is_matmul_effective_W [OF W pos zb wf nc]
  obtain y where "forward \<lparr>insize = 2, outsize = 2, n_U_reflectors = 1, n_V_reflectors = 1,
       r = 1 / 5, sigma_mean = 4 / 5, U = [[1, 0], [0, 1]], p = [0, 0],
       V = [[0, 1], [0, 1]], bias = [0, 0]\<rparr> \<lparr>rows = [[1, 2]], ncols = 2\<rparr> = Inr y"
    and mm: "matmul \<lparr>rows = [[1, 2]], ncols = 2\<rparr> \<lparr>rows = [[- (4 / 5), 0], [0, - (4 / 5)]], ncols = 2\<rparr> = Inr y"
    by blast
  then have "y = \<lparr>rows = [[- (4 / 5), - (8 / 5)]], ncols = 2\<rparr>"
    using fw by simp
  then show ?thesis using W fw mm by simp
qed

section \<open>Facts about the aggregation of outputs\<close>

lemma collect_one_result:
  "collect_one d acc = Inr acc' \<Longrightarrow> distinct (map fst d) \<Longrightarrow>
   acc' = map (\<lambda>(k, vs). (k, vs @ added d k)) acc"
proof (induction d arbitrary: acc)
  case Nil
  then show ?case by (simp add: added_def case_prod_unfold)
next
  case (Cons kv kvs)
  obtain k v where kv: "kv = (k, v)" by (cases kv)
  from Cons.prems(1) obtain vs where "map_of acc k = Some vs"
    and rec: "collect_one kvs (map (\<lambda>(k', vs'). if k' = k then (k', vs' @ [v]) else (k', vs')) acc) = Inr acc'"
    unfolding kv by (auto split: option.splits)
  from Cons.prems(2) have dk: "distinct (map fst kvs)" and nk: "k \<notin> fst ` set kvs"
    unfolding kv by simp_all
  have none: "map_of kvs k = None" using nk by (simp add: map_of_eq_None_iff)
  have "acc' = map (\<lambda>(k', vs). (k', vs @ added kvs k'))
      (map (\<lambda>(k', vs'). if k' = k then (k', vs' @ [v]) else (k', vs')) acc)"
    using Cons.IH [OF rec dk] .
  also have "\<dots> = map (\<lambda>(k', vs). (k', vs @ added (kv # kvs) k')) acc"
    unfolding kv using none by (auto simp: added_def)
  finally show ?case .
qed

lemma collect_all_result:
  "collect_all ds acc = Inr acc' \<Longrightarrow> \<forall>d \<in> set ds. distinct (map fst d) \<Longrightarrow>
   acc' = map (\<lambda>(k, vs). (k, vs @ concat (map (\<lambda>d. added d k) ds))) acc"
proof (induction ds arbitrary: acc)
  case Nil
  then show ?case by (simp add: case_prod_unfold)
next
  case (Cons d ds)
  from Cons.prems(1) obtain acc1 where one: "collect_one d acc = Inr acc1"
    and rest: "collect_all ds acc1 = Inr acc'"
    by (auto simp: bindE_Inr_iff)
  have a1: "acc1 = map (\<lambda>(k, vs). (k, vs @ added d k)) acc"
    using one Cons.prems(2) by (simp add: collect_one_result)
  have "acc' = map (\<lambda>(k, vs). (k, vs @ concat (map (\<lambda>d. added d k) ds))) acc1"
    using Cons.IH [OF rest] Cons.prems(2) by simp
  then show ?case unfolding a1 by (simp add: case_prod_unfold)
qed

lemma agg_entries_lookup:
  "agg_entries stk acc = Inr res \<Longrightarrow> map_of acc k = Some vs \<Longrightarrow>
   \<exists>a. agg_entry stk vs = Inr a \<and> map_of res k = Some a"
proof (induction acc arbitrary: res)
  case Nil
  then show ?case by simp
next
  case (Cons kv acc)
  obtain k' vs' where kv: "kv = (k', vs')" by (cases kv)
  from Cons.prems(1) obtain a rest where a: "agg_entry stk vs' = Inr a"
    and rest: "agg_entries stk acc = Inr rest" and res: "res = (k', a) # rest"
    unfolding kv by (auto simp: bindE_Inr_iff)
  show ?case
  proof (cases "k' = k")
    case True
    then show ?thesis using Cons.prems(2) a res kv by simp
  next
    case False
    then have "map_of acc k = Some vs" using Cons.prems(2) kv by simp
    from Cons.IH [OF rest this] show ?thesis using False res by simp
  qed
qed

lemma the_tensors_map: "the_tensors (map Tens ts) = Inr ts"
  by (induction ts) simp_all

lemma map_of_map_snd:
  "map_of (map (\<lambda>(k, v). (k, f k v)) xs) k = map_option (f k) (map_of xs k)"
  by (induction xs) auto

lemma sum_hd_filter:
  "sum_list (map (\<lambda>t. hd (shape t)) (filter (\<lambda>t. shape t \<noteq> [0]) ts)) =
   sum_list (map (\<lambda>t. hd (shape t)) ts)"
  by (induction ts) auto

lemma stack_Inr:
  assumes "stack ts = Inr s"
  shows "s = Tensor (length ts # shape (hd ts)) (concat (map entries ts))"
    and "\<forall>t \<in> set ts. shape t = shape (hd ts)"
  using assms by (cases ts; simp add: stack_def list_all_iff split: if_splits)+

lemma cat_Inr:
  assumes "cat ts = Inr c" and "2 \<le> length (shape (hd ts))"
  shows "c = Tensor (sum_list (map (\<lambda>t. hd (shape t)) ts) # tl (shape (hd ts)))
               (concat (map entries (filter (\<lambda>t. shape t \<noteq> [0]) ts)))"
proof -
  from assms(1) obtain t0 ts0 where ts: "ts = t0 # ts0"
    by (cases ts) (simp_all add: cat_def)
  have n0: "shape t0 \<noteq> [0]" using assms(2) ts by auto
  then have f: "filter (\<lambda>t. shape t \<noteq> [0]) ts = t0 # filter (\<lambda>t. shape t \<noteq> [0]) ts0"
    using ts by simp
  have "c = Tensor (sum_list (map (\<lambda>t. hd (shape t)) (filter (\<lambda>t. shape t \<noteq> [0]) ts)) # tl (shape t0))
               (concat (map entries (filter (\<lambda>t. shape t \<noteq> [0]) ts)))"
    using assms(1) unfolding cat_def f [unfolded ts] ts
    by (simp split: if_splits)
  then show ?thesis using ts by (simp only: sum_hd_filter list.sel)
qed

section \<open>Facts about the closed loop\<close>






lemma sum_list_all_one:
  "\<forall>x \<in> set xs. f x = (1::nat) \<Longrightarrow> sum_list (map f xs) = length xs"
  by (induction xs) simp_all





section \<open>Claims about simulators.py\<close>

text \<open>
  C5. \<open>ClosedLoopSimulator.rhc\<close> keeps, at the first output key of the policy, only the
  first time step of the output sequence (index 0 of the first axis, which remains an axis
  of length one), and leaves every other entry of the dictionary as it is. The entry at that
  key is a tensor of at least three dimensions with at least one time step.
\<close>

theorem rhc_first_step:
  assumes "output_keys (policy s) = key # keys"
    and "policy_out key = Some t"
    and "shape t = n # d1 # d2 # ds"
    and "0 < n"
  shows "\<exists>out. rhc s policy_out = Inr out
           \<and> out key = Some (Tensor (1 # d1 # d2 # ds) (take (prod_list (d1 # d2 # ds)) (entries t)))
           \<and> index3 0 t = Inr (Tensor (d1 # d2 # ds) (take (prod_list (d1 # d2 # ds)) (entries t)))
           \<and> (\<forall>key'. key' \<noteq> key \<longrightarrow> out key' = policy_out key')"
  using assms by (simp add: rhc_def first_step_def index3_def)


theorem rhc_first_step_witness:
  "(case rhc \<lparr>sim_data = Map.empty,
        policy = \<lparr>input_keys = [], output_keys = [''U_pred'', ''reg_error_policy''], nsteps = 2,
                  window_size = 0, call = Inr\<rparr>,
        emulator = \<lparr>input_keys = [], output_keys = [], nsteps = 0, window_size = 0, call = Inr\<rparr>,
        estimator = None\<rparr>
      [''U_pred'' \<mapsto> Tensor [2, 1, 2] [1, 2, 3, 4], ''reg_error_policy'' \<mapsto> Tensor [] [0]]
    of Inl e \<Rightarrow> None
     | Inr out \<Rightarrow> Some (out ''U_pred'', out ''reg_error_policy''))
   = Some (Some (Tensor [1, 1, 2] [1, 2]), Some (Tensor [] [0]))"
  using rhc_first_step [of "\<lparr>sim_data = Map.empty,
        policy = \<lparr>input_keys = [], output_keys = [''U_pred'', ''reg_error_policy''], nsteps = 2,
                  window_size = 0, call = Inr\<rparr>,
        emulator = \<lparr>input_keys = [], output_keys = [], nsteps = 0, window_size = 0, call = Inr\<rparr>,
        estimator = None\<rparr>" "''U_pred''" "[''reg_error_policy'']"
        "[''U_pred'' \<mapsto> Tensor [2, 1, 2] [1, 2, 3, 4], ''reg_error_policy'' \<mapsto> Tensor [] [0]]"
        "Tensor [2, 1, 2] [1, 2, 3, 4]" 2 1 2 "[]"]
  by (auto simp: index3_def)


text \<open>
  C6. With \<open>estimator = None\<close>, \<open>simulate\<close> is claimed to complete. It does not: its
  first statement reads \<open>self.estimator.output_keys\<close>, which raises AttributeError for
  every simulator and every \<open>nsim\<close>.
\<close>

theorem simulate_without_estimator:
  "simulate (s\<lparr>estimator := None\<rparr>) nsim = Inl AttributeError"
  by (simp add: simulate_def simulate_steps_def cl_keys_def estimator_attr_def)

text \<open>
  C7 (as in the specification). \<open>agg\<close> applied to the two dictionaries
  \<open>{"loss": 1.0}\<close> and \<open>{"loss": 3.0}\<close> yields \<open>{"loss": 2.0}\<close>. With these values,
  which are Python floats, it does not: \<open>agg\<close> reads the attribute \<open>shape\<close> of the
  first value, and a float has none.
\<close>

theorem agg_float_counterexample:
  "agg False [[(''loss'', PyFloat 1)], [(''loss'', PyFloat 3)]] = Inl AttributeError
   \<and> agg True [[(''loss'', PyFloat 1)], [(''loss'', PyFloat 3)]] = Inl AttributeError"
  by (simp add: agg_def agg_entry_def)

text \<open>
  C7 (amended). Whenever \<open>agg\<close> returns and the dictionaries hold tensors under the key
  \<open>k\<close>: if the first of them has fewer than two dimensions, the aggregated entry is the
  mean of all entries of these tensors; otherwise it is their stack along a new first axis
  if \<open>stack\<close> is set, and their concatenation along the first axis if it is not (tensors
  of shape \<open>(0,)\<close> are skipped). In the first two cases the tensors have one shape. The
  zero-dimensional tensors 1 and 3 give the zero-dimensional tensor 2; two tensors of
  shape (5, 3) give shape (10, 3) or (2, 5, 3); tensors of shape (1, 2) and (2, 2) are
  concatenated to shape (3, 2).
\<close>

theorem agg_aggregates:
  assumes ok: "agg stk outputs = Inr res"
    and dist: "\<forall>d \<in> set outputs. distinct (map fst d)"
    and at_k: "map (\<lambda>d. map_of d k) outputs = map (\<lambda>t. Some (Tens t)) ts"
  shows "map_of res k = Some (Agg
     (if length (shape (hd ts)) < 2
      then Tensor [] [sum_list (concat (map entries ts)) / real (length (concat (map entries ts)))]
      else if stk then Tensor (length ts # shape (hd ts)) (concat (map entries ts))
      else Tensor (sum_list (map (\<lambda>t. hd (shape t)) ts) # tl (shape (hd ts)))
             (concat (map entries (filter (\<lambda>t. shape t \<noteq> [0]) ts)))))
   \<and> (length (shape (hd ts)) < 2 \<or> stk \<longrightarrow> (\<forall>t \<in> set ts. shape t = shape (hd ts)))"
proof -
  from ok obtain d0 ds where outs: "outputs = d0 # ds"
    by (cases outputs) (simp_all add: agg_def)
  from ok obtain acc where coll: "collect_all outputs (map (\<lambda>(k, v). (k, [])) d0) = Inr acc"
    and ents: "agg_entries stk acc = Inr res"
    unfolding outs by (auto simp: agg_def bindE_Inr_iff)
  have acc: "acc = map (\<lambda>(k, vs). (k, vs @ concat (map (\<lambda>d. added d k) outputs)))
      (map (\<lambda>(k, v). (k, [])) d0)"
    using coll dist by (rule collect_all_result)
  have len: "length ts = length outputs"
    using at_k by (metis length_map)
  then have ne: "ts \<noteq> []" using outs by auto
  have "map (\<lambda>d. added d k) outputs = map (\<lambda>t. [Tens t]) ts"
  proof (rule nth_equalityI)
    show "length (map (\<lambda>d. added d k) outputs) = length (map (\<lambda>t. [Tens t]) ts)"
      using len by simp
  next
    fix i assume "i < length (map (\<lambda>d. added d k) outputs)"
    then have i: "i < length outputs" by simp
    have "map (\<lambda>d. map_of d k) outputs ! i = map (\<lambda>t. Some (Tens t)) ts ! i"
      using at_k by simp
    then have "map_of (outputs ! i) k = Some (Tens (ts ! i))"
      using i len by simp
    then show "map (\<lambda>d. added d k) outputs ! i = map (\<lambda>t. [Tens t]) ts ! i"
      using i len by (simp add: added_def)
  qed
  then have cc: "concat (map (\<lambda>d. added d k) outputs) = map Tens ts"
    by (simp add: concat_map_singleton)
  obtain t0 ts0 where ts: "ts = t0 # ts0" using ne by (cases ts) auto
  have "map_of d0 k = Some (Tens t0)" using at_k outs ts by simp
  then have "map_of (map (\<lambda>(k, v). (k, [] :: pyval list)) d0) k = Some []"
    by (simp add: map_of_map_snd [where f = "\<lambda>_ _. []"])
  then have "map_of acc k = Some ([] @ map Tens ts)"
    unfolding acc map_of_map_snd [where f = "\<lambda>k vs. vs @ concat (map (\<lambda>d. added d k) outputs)"] cc
    by simp
  then have "map_of acc k = Some (map Tens ts)" by simp
  from agg_entries_lookup [OF ents this] obtain a where a: "agg_entry stk (map Tens ts) = Inr a"
    and r: "map_of res k = Some a" by blast
  have tt: "the_tensors (Tens t0 # map Tens ts0) = Inr ts"
    using the_tensors_map [of ts] ts by simp
  have hd_ts: "hd ts = t0" using ts by simp
  show ?thesis
  proof (cases "length (shape t0) < 2")
    case True
    from a True obtain s m where s: "stack ts = Inr s" and m: "mean s = Inr m" and am: "a = Agg m"
      unfolding ts agg_entry_def using tt ts by (auto simp: bindE_Inr_iff)
    have "m = Tensor [] [sum_list (concat (map entries ts)) / real (length (concat (map entries ts)))]"
      using m unfolding stack_Inr(1) [OF s] by (simp add: mean_def split: if_splits)
    then show ?thesis
      using True r am stack_Inr(2) [OF s] hd_ts by simp
  next
    case False
    show ?thesis
    proof (cases stk)
      case True
      from a False True obtain s where s: "stack ts = Inr s" and am: "a = Agg s"
        unfolding ts agg_entry_def using tt ts by (auto simp: bindE_Inr_iff)
      show ?thesis
        using False True r am stack_Inr [OF s] hd_ts by simp
    next
      case nstk: False
      from a False nstk obtain c where c: "cat ts = Inr c" and am: "a = Agg c"
        unfolding ts agg_entry_def using tt ts by (auto simp: bindE_Inr_iff)
      have "2 \<le> length (shape (hd ts))" using False hd_ts by simp
      from cat_Inr [OF c this] show ?thesis
        using False nstk r am hd_ts by simp
    qed
  qed
qed

theorem agg_aggregates_witness:
  "agg False [[(''loss'', Tens (Tensor [] [1]))], [(''loss'', Tens (Tensor [] [3]))]] =
     Inr [(''loss'', Agg (Tensor [] [2]))]
   \<and> agg False [[(''Y'', Tens (Tensor [5, 3] [1, 2, 3, 4, 5, 6, 7, 8, 9, 10, 11, 12, 13, 14, 15]))], [(''Y'', Tens (Tensor [5, 3] [16, 17, 18, 19, 20, 21, 22, 23, 24, 25, 26, 27, 28, 29, 30]))]] =
     Inr [(''Y'', Agg (Tensor [10, 3] [1, 2, 3, 4, 5, 6, 7, 8, 9, 10, 11, 12, 13, 14, 15, 16, 17, 18, 19, 20, 21, 22, 23, 24, 25, 26, 27, 28, 29, 30]))]
   \<and> agg True [[(''Y'', Tens (Tensor [5, 3] [1, 2, 3, 4, 5, 6, 7, 8, 9, 10, 11, 12, 13, 14, 15]))], [(''Y'', Tens (Tensor [5, 3] [16, 17, 18, 19, 20, 21, 22, 23, 24, 25, 26, 27, 28, 29, 30]))]] =
     Inr [(''Y'', Agg (Tensor [2, 5, 3] [1, 2, 3, 4, 5, 6, 7, 8, 9, 10, 11, 12, 13, 14, 15, 16, 17, 18, 19, 20, 21, 22, 23, 24, 25, 26, 27, 28, 29, 30]))]
   \<and> agg False [[(''Y'', Tens (Tensor [1, 2] [1, 2]))], [(''Y'', Tens (Tensor [2, 2] [3, 4, 5, 6]))]] =
     Inr [(''Y'', Agg (Tensor [3, 2] [1, 2, 3, 4, 5, 6]))]"
proof -
  have e1: "agg False [[(''loss'', Tens (Tensor [] [1]))], [(''loss'', Tens (Tensor [] [3]))]] =
     Inr [(''loss'', Agg (Tensor [] [2]))]"
    by (simp add: agg_def agg_entry_def stack_def mean_def)
  have e2: "agg False [[(''Y'', Tens (Tensor [5, 3] [1, 2, 3, 4, 5, 6, 7, 8, 9, 10, 11, 12, 13, 14, 15]))], [(''Y'', Tens (Tensor [5, 3] [16, 17, 18, 19, 20, 21, 22, 23, 24, 25, 26, 27, 28, 29, 30]))]] =
     Inr [(''Y'', Agg (Tensor [10, 3] [1, 2, 3, 4, 5, 6, 7, 8, 9, 10, 11, 12, 13, 14, 15, 16, 17, 18, 19, 20, 21, 22, 23, 24, 25, 26, 27, 28, 29, 30]))]"
    by (simp add: agg_def agg_entry_def cat_def)
  have e3: "agg True [[(''Y'', Tens (Tensor [5, 3] [1, 2, 3, 4, 5, 6, 7, 8, 9, 10, 11, 12, 13, 14, 15]))], [(''Y'', Tens (Tensor [5, 3] [16, 17, 18, 19, 20, 21, 22, 23, 24, 25, 26, 27, 28, 29, 30]))]] =
     Inr [(''Y'', Agg (Tensor [2, 5, 3] [1, 2, 3, 4, 5, 6, 7, 8, 9, 10, 11, 12, 13, 14, 15, 16, 17, 18, 19, 20, 21, 22, 23, 24, 25, 26, 27, 28, 29, 30]))]"
    by (simp add: agg_def agg_entry_def stack_def)
  have e4: "agg False [[(''Y'', Tens (Tensor [1, 2] [1, 2]))], [(''Y'', Tens (Tensor [2, 2] [3, 4, 5, 6]))]] =
     Inr [(''Y'', Agg (Tensor [3, 2] [1, 2, 3, 4, 5, 6]))]"
    by (simp add: agg_def agg_entry_def cat_def)
  have "map_of [(''loss'', Agg (Tensor [] [2]))] ''loss'' = Some (Agg (Tensor [] [2]))"
    using agg_aggregates [OF e1, of "''loss''" "[Tensor [] [1], Tensor [] [3]]"] by simp
  moreover have "map_of [(''Y'', Agg (Tensor [10, 3] [1, 2, 3, 4, 5, 6, 7, 8, 9, 10, 11, 12, 13, 14, 15, 16, 17, 18, 19, 20, 21, 22, 23, 24, 25, 26, 27, 28, 29, 30]))] ''Y'' = Some (Agg (Tensor [10, 3] [1, 2, 3, 4, 5, 6, 7, 8, 9, 10, 11, 12, 13, 14, 15, 16, 17, 18, 19, 20, 21, 22, 23, 24, 25, 26, 27, 28, 29, 30]))"
    using agg_aggregates [OF e2, of "''Y''" "[Tensor [5, 3] [1, 2, 3, 4, 5, 6, 7, 8, 9, 10, 11, 12, 13, 14, 15], Tensor [5, 3] [16, 17, 18, 19, 20, 21, 22, 23, 24, 25, 26, 27, 28, 29, 30]]"] by simp
  moreover have "map_of [(''Y'', Agg (Tensor [2, 5, 3] [1, 2, 3, 4, 5, 6, 7, 8, 9, 10, 11, 12, 13, 14, 15, 16, 17, 18, 19, 20, 21, 22, 23, 24, 25, 26, 27, 28, 29, 30]))] ''Y'' = Some (Agg (Tensor [2, 5, 3] [1, 2, 3, 4, 5, 6, 7, 8, 9, 10, 11, 12, 13, 14, 15, 16, 17, 18, 19, 20, 21, 22, 23, 24, 25, 26, 27, 28, 29, 30]))"
    using agg_aggregates [OF e3, of "''Y''" "[Tensor [5, 3] [1, 2, 3, 4, 5, 6, 7, 8, 9, 10, 11, 12, 13, 14, 15], Tensor [5, 3] [16, 17, 18, 19, 20, 21, 22, 23, 24, 25, 26, 27, 28, 29, 30]]"] by simp
  moreover have "map_of [(''Y'', Agg (Tensor [3, 2] [1, 2, 3, 4, 5, 6]))] ''Y'' =
      Some (Agg (Tensor [3, 2] [1, 2, 3, 4, 5, 6]))"
    using agg_aggregates [OF e4, of "''Y''" "[Tensor [1, 2] [1, 2], Tensor [2, 2] [3, 4, 5, 6]]"] by simp
  ultimately show ?thesis using e1 e2 e3 e4 by simp
qed




end
